theory Spec2Isabelle
  imports Complex_Main
begin

section \<open>Strings as the program uses them\<close>

text \<open>
  A Python \<open>str\<close> is modelled as a \<open>string\<close>; one \<open>char\<close> stands for one code point
  in the range U+0000 .. U+00FF, so \<open>length\<close> is Python's \<open>len\<close>.  Text with code points
  above U+00FF is outside the model.
\<close>

definition whitespace :: "char list" where
  \<comment> \<open>the code points below U+0100 for which \<open>str.isspace\<close> holds: U+0009..U+000D,
      U+001C..U+001F, U+0020, U+0085 and U+00A0\<close>
  "whitespace =
     [CHR 0x09, CHR 0x0A, CHR 0x0B, CHR 0x0C, CHR 0x0D, CHR 0x1C, CHR 0x1D, CHR 0x1E, CHR 0x1F,
      CHR 0x20, CHR 0x85, CHR 0xA0]"

definition is_space :: "char \<Rightarrow> bool" where
  \<comment> \<open>\<open>str.isspace\<close> on one code point; the same set is used by \<open>str.strip()\<close>,
      \<open>str.split()\<close> and the regular expression class \<open>\s\<close>\<close>
  "is_space c \<longleftrightarrow> c \<in> set whitespace"

definition strip :: "string \<Rightarrow> string" where
  \<comment> \<open>\<open>s.strip()\<close>\<close>
  "strip s = rev (dropWhile is_space (rev (dropWhile is_space s)))"

function split_ws :: "string \<Rightarrow> string list" where
  \<comment> \<open>\<open>s.split()\<close>: the maximal runs of non-whitespace characters\<close>
  "split_ws s =
     (let t = dropWhile is_space s
      in if t = [] then []
         else takeWhile (\<lambda>c. \<not> is_space c) t # split_ws (dropWhile (\<lambda>c. \<not> is_space c) t))"
  by pat_completeness auto

lemma split_ws_measure:
  assumes "dropWhile is_space s \<noteq> []"
  shows "length (dropWhile (\<lambda>c. \<not> is_space c) (dropWhile is_space s)) < length s"
proof -
  obtain c cs where t: "dropWhile is_space s = c # cs"
    using assms by (cases "dropWhile is_space s") auto
  then have "\<not> is_space c"
    using hd_dropWhile [of is_space s] by auto
  then have "length (dropWhile (\<lambda>c. \<not> is_space c) (c # cs)) \<le> length cs"
    by (simp add: length_dropWhile_le)
  moreover have "length (c # cs) \<le> length s"
    using length_dropWhile_le [of is_space s] t by simp
  ultimately show ?thesis using t by simp
qed

termination split_ws
  by (relation "measure length") (auto simp: split_ws_measure)

declare split_ws.simps [simp del]

fun join :: "string \<Rightarrow> string list \<Rightarrow> string" where
  \<comment> \<open>\<open>sep.join(parts)\<close>\<close>
  "join sep [] = []"
| "join sep [p] = p"
| "join sep (p # q # ps) = p @ sep @ join sep (q # ps)"

definition replace_char :: "char \<Rightarrow> char \<Rightarrow> string \<Rightarrow> string" where
  \<comment> \<open>\<open>s.replace(a, b)\<close> for one-character \<open>a\<close> and \<open>b\<close>\<close>
  "replace_char a b s = map (\<lambda>c. if c = a then b else c) s"

definition digit_char :: "nat \<Rightarrow> char" where
  "digit_char d = ''0123456789'' ! d"

fun str_nat :: "nat \<Rightarrow> string" where
  \<comment> \<open>\<open>str(n)\<close> for a non-negative integer\<close>
  "str_nat n = (if n < 10 then [digit_char n] else str_nat (n div 10) @ [digit_char (n mod 10)])"

declare str_nat.simps [simp del]

definition str_int :: "int \<Rightarrow> string" where
  \<comment> \<open>\<open>str(n)\<close> for an integer\<close>
  "str_int n = (if n < 0 then CHR ''-'' # str_nat (nat (- n)) else str_nat (nat n))"

section \<open>The header sanitizer: \<open>PDFExtractor._clean_column_names\<close>\<close>

datatype raw_header =
    NoneH               \<comment> \<open>the cell is \<open>None\<close>\<close>
  | StrH string         \<comment> \<open>the cell is a string (or an object whose \<open>str()\<close> is that string)\<close>
  | BadH                \<comment> \<open>an object whose \<open>str()\<close> raises: the only way into the \<open>except\<close> branch\<close>

definition invalid_chars :: "char list" where
  "invalid_chars = [CHR 0x5C, CHR ''/'', CHR ''*'', CHR ''?'', CHR '':'', CHR ''['', CHR '']'']"

definition column_name :: "nat \<Rightarrow> string" where
  \<comment> \<open>\<open>f"Column_{i+1}"\<close> for the 0-based index \<open>i\<close>\<close>
  "column_name i = ''Column_'' @ str_nat (i + 1)"

definition limit_length :: "string \<Rightarrow> string" where
  "limit_length h = (if length h > 50 then take 47 h @ ''...'' else h)"

definition clean_text :: "string \<Rightarrow> string" where
  \<comment> \<open>the \<open>else\<close> branch for a non-blank stripped header\<close>
  "clean_text h =
     (let h1 = replace_char (CHR 0x0D) (CHR '' '') (replace_char (CHR 0x0A) (CHR '' '') h);
          h2 = join '' '' (split_ws h1);
          h3 = fold (\<lambda>c s. replace_char c (CHR ''_'') s) invalid_chars h2
      in limit_length h3)"

datatype py_error = FileNotFoundError | ValueError | KeyError | TypeError | LibraryError

definition clean_one :: "nat \<Rightarrow> raw_header \<Rightarrow> py_error + string" where
  \<comment> \<open>the body of the \<open>try\<close> up to the duplicate handling; \<open>Inl\<close> when \<open>str(header)\<close> raises\<close>
  "clean_one i header =
     (case header of
        NoneH \<Rightarrow> Inr (column_name i)
      | BadH \<Rightarrow> Inl TypeError
      | StrH s \<Rightarrow>
          (let h = strip s
           in if h = [] then Inr (column_name i) else Inr (clean_text h)))"

lemma str_nat_nonempty: "str_nat n \<noteq> []"
  by (subst str_nat.simps) simp

lemma digit_char_inj: "a < 10 \<Longrightarrow> b < 10 \<Longrightarrow> digit_char a = digit_char b \<Longrightarrow> a = b"
proof -
  assume a: "a < 10" and b: "b < 10" and e: "digit_char a = digit_char b"
  have "distinct ''0123456789''" by simp
  then show "a = b" using a b e unfolding digit_char_def
    by (subst (asm) nth_eq_iff_index_eq) simp_all
qed

lemma str_nat_inj: "str_nat m = str_nat n \<Longrightarrow> m = n"
proof (induction m arbitrary: n rule: str_nat.induct)
  case (1 m)
  show ?case
  proof (cases "m < 10")
    case True
    then have sm: "str_nat m = [digit_char m]" by (subst str_nat.simps) simp
    show ?thesis
    proof (cases "n < 10")
      case True
      then have "str_nat n = [digit_char n]" by (subst str_nat.simps) simp
      with sm "1.prems" have "digit_char m = digit_char n" by simp
      then show ?thesis using \<open>m < 10\<close> True digit_char_inj by blast
    next
      case False
      then have "str_nat n = str_nat (n div 10) @ [digit_char (n mod 10)]"
        by (subst str_nat.simps) simp
      with sm "1.prems" have "str_nat (n div 10) = []" by simp
      then show ?thesis using str_nat_nonempty by blast
    qed
  next
    case False
    then have sm: "str_nat m = str_nat (m div 10) @ [digit_char (m mod 10)]"
      by (subst str_nat.simps) simp
    show ?thesis
    proof (cases "n < 10")
      case True
      then have "str_nat n = [digit_char n]" by (subst str_nat.simps) simp
      with sm "1.prems" have "str_nat (m div 10) = []" by simp
      then show ?thesis using str_nat_nonempty by blast
    next
      case nf: False
      then have "str_nat n = str_nat (n div 10) @ [digit_char (n mod 10)]"
        by (subst str_nat.simps) simp
      with sm "1.prems" have e1: "str_nat (m div 10) = str_nat (n div 10)"
        and e2: "digit_char (m mod 10) = digit_char (n mod 10)" by simp_all
      from "1.IH" [OF False e1] have d: "m div 10 = n div 10" .
      from e2 have "m mod 10 = n mod 10" using digit_char_inj [of "m mod 10" "n mod 10"] by simp
      with d show ?thesis by (metis div_mult_mod_eq)
    qed
  qed
qed

definition numbered :: "string \<Rightarrow> nat \<Rightarrow> string" where
  \<comment> \<open>\<open>f"{original_header}_{counter}"\<close>\<close>
  "numbered original counter = original @ ''_'' @ str_nat counter"

lemma numbered_inj: "numbered h m = numbered h n \<Longrightarrow> m = n"
  by (simp add: numbered_def str_nat_inj)

lemma finite_numbered: "finite {n. numbered h n \<in> set seen}"
proof -
  have "inj (numbered h)" by (rule injI) (rule numbered_inj)
  then have "finite (numbered h -` set seen)" by (intro finite_vimageI) simp_all
  then show ?thesis by (simp add: vimage_def)
qed

text \<open>
  The \<open>while header in seen_headers\<close> loop.  \<open>seen_headers\<close> is a Python set; it is
  modelled by a list of its elements and only read through membership.  The loop ends
  because the numbered candidates are pairwise different and the set is finite.
\<close>

function dedupe :: "string list \<Rightarrow> string \<Rightarrow> string \<Rightarrow> nat \<Rightarrow> string" where
  "dedupe seen original header counter =
     (if header \<in> set seen
      then dedupe seen original (numbered original counter) (counter + 1)
      else header)"
  by pat_completeness auto

termination dedupe
proof (relation "measures [\<lambda>(seen, original, header, counter). card {n. counter \<le> n \<and> numbered original n \<in> set seen},
                           \<lambda>(seen, original, header, counter). if header \<in> set seen then 1 else 0]", goal_cases)
  case 1 show ?case by simp
next
  case (2 seen original header counter)
  let ?A = "\<lambda>c. {n. c \<le> n \<and> numbered original n \<in> set seen}"
  have fin: "finite (?A counter)" using finite_numbered [of original seen] by simp
  have sub: "?A (counter + 1) \<subseteq> ?A counter" by auto
  show ?case
  proof (cases "numbered original counter \<in> set seen")
    case True
    then have "counter \<in> ?A counter" "counter \<notin> ?A (counter + 1)" by auto
    then have "?A (counter + 1) \<subset> ?A counter" using sub by blast
    then have "card (?A (counter + 1)) < card (?A counter)" using fin by (rule psubset_card_mono[rotated])
    then show ?thesis by simp
  next
    case False
    have "card (?A (counter + 1)) \<le> card (?A counter)" using fin sub by (rule card_mono)
    then show ?thesis using False 2 by auto
  qed
qed

declare dedupe.simps [simp del]

fun clean_loop :: "nat \<Rightarrow> raw_header list \<Rightarrow> string list \<Rightarrow> string list \<Rightarrow> string list" where
  "clean_loop i [] cleaned_headers seen_headers = cleaned_headers"
| "clean_loop i (header # rest) cleaned_headers seen_headers =
     (case clean_one i header of
        Inr h \<Rightarrow>
          (let h' = dedupe seen_headers h h 1
           in clean_loop (i + 1) rest (cleaned_headers @ [h']) (h' # seen_headers))
      | Inl e \<Rightarrow>
          (let fallback_header = dedupe seen_headers (column_name i) (column_name i) 1
           in clean_loop (i + 1) rest (cleaned_headers @ [fallback_header])
                (fallback_header # seen_headers)))"

definition clean_column_names :: "raw_header list \<Rightarrow> string list" where
  "clean_column_names headers = clean_loop 0 headers [] []"

definition base_label :: "nat \<Rightarrow> raw_header \<Rightarrow> string" where
  "base_label i header = (case clean_one i header of Inr h \<Rightarrow> h | Inl e \<Rightarrow> column_name i)"

lemma dedupe_fresh: "dedupe seen original header counter \<notin> set seen"
  by (induction seen original header counter rule: dedupe.induct)
     (subst dedupe.simps, simp)

lemma clean_loop_step:
  "clean_loop i (header # rest) cleaned seen =
     clean_loop (i + 1) rest (cleaned @ [dedupe seen (base_label i header) (base_label i header) 1])
       (dedupe seen (base_label i header) (base_label i header) 1 # seen)"
  by (simp add: base_label_def Let_def split: sum.splits)

declare clean_loop.simps(2) [simp del]

lemma clean_loop_acc: "clean_loop i hs cleaned seen = cleaned @ clean_loop i hs [] seen"
proof (induction hs arbitrary: i cleaned seen)
  case Nil
  show ?case by simp
next
  case (Cons h hs)
  show ?case
    unfolding clean_loop_step
    by (subst Cons.IH, subst (2) Cons.IH) simp
qed

lemma clean_loop_length: "length (clean_loop i hs cleaned seen) = length cleaned + length hs"
  by (induction hs arbitrary: i cleaned seen) (simp_all add: clean_loop_step)

lemma clean_loop_distinct:
  "distinct cleaned \<Longrightarrow> set cleaned \<subseteq> set seen \<Longrightarrow> distinct (clean_loop i hs cleaned seen)"
proof (induction hs arbitrary: i cleaned seen)
  case Nil
  then show ?case by simp
next
  case (Cons h hs)
  let ?h = "dedupe seen (base_label i h) (base_label i h) 1"
  have "?h \<notin> set seen" by (rule dedupe_fresh)
  with Cons.prems have "distinct (cleaned @ [?h])" "set (cleaned @ [?h]) \<subseteq> set (?h # seen)"
    by auto
  then show ?case unfolding clean_loop_step by (rule Cons.IH)
qed

lemma clean_loop_nth:
  "k < length hs \<Longrightarrow>
   clean_loop i hs [] seen ! k =
     dedupe (rev (take k (clean_loop i hs [] seen)) @ seen)
       (base_label (i + k) (hs ! k)) (base_label (i + k) (hs ! k)) 1"
proof (induction hs arbitrary: i seen k)
  case Nil
  then show ?case by simp
next
  case (Cons h hs)
  let ?h = "dedupe seen (base_label i h) (base_label i h) 1"
  have unfold: "clean_loop i (h # hs) [] seen = ?h # clean_loop (i + 1) hs [] (?h # seen)"
    unfolding clean_loop_step by (subst clean_loop_acc) simp
  show ?case
  proof (cases k)
    case 0
    then show ?thesis by (simp add: unfold)
  next
    case (Suc k')
    with Cons.prems have "k' < length hs" by simp
    from Cons.IH [OF this, of "i + 1" "?h # seen"] Suc show ?thesis
      by (simp add: unfold)
  qed
qed


text \<open>
  C4.  For every list of raw header cells (\<open>None\<close>, blank and failing cells included) the
  sanitizer returns a list in which no two labels are equal.
\<close>

theorem clean_column_names_distinct: "distinct (clean_column_names headers)"
  unfolding clean_column_names_def by (rule clean_loop_distinct) simp_all

theorem clean_column_names_distinct_witness:
  "distinct (clean_column_names [NoneH, StrH ''Name'', StrH ''Name'']) \<and>
   clean_column_names [NoneH, StrH ''Name'', StrH ''Name''] = [''Column_1'', ''Name'', ''Name_1'']"
proof -
  have "clean_column_names [NoneH, StrH ''Name'', StrH ''Name''] = [''Column_1'', ''Name'', ''Name_1'']"
    by code_simp
  then show ?thesis
    using clean_column_names_distinct [of "[NoneH, StrH ''Name'', StrH ''Name'']"] by simp
qed

text \<open>
  C10.  The sanitizer returns exactly one label per input cell, in the input order: the
  output has the length of the input, and the label at position \<open>i\<close> is the base label
  of the cell at position \<open>i\<close> (its cleaned text, or \<open>Column_{i+1}\<close> for a \<open>None\<close>, blank or
  failing cell), made unique against the labels emitted before it.
\<close>

theorem clean_column_names_positions:
  "length (clean_column_names headers) = length headers \<and>
   (\<forall>i < length headers.
      clean_column_names headers ! i =
        dedupe (rev (take i (clean_column_names headers)))
          (base_label i (headers ! i)) (base_label i (headers ! i)) 1)"
  unfolding clean_column_names_def
  using clean_loop_nth [of _ headers 0 "[]"] by (simp add: clean_loop_length)

theorem clean_column_names_positions_witness:
  "length (clean_column_names [NoneH, BadH, StrH ''Column_1'']) = 3 \<and>
   (2::nat) < length [NoneH, BadH, StrH ''Column_1''] \<and>
   base_label 2 ([NoneH, BadH, StrH ''Column_1''] ! 2) = ''Column_1'' \<and>
   clean_column_names [NoneH, BadH, StrH ''Column_1''] ! 2 =
     dedupe [''Column_2'', ''Column_1''] ''Column_1'' ''Column_1'' 1 \<and>
   clean_column_names [NoneH, BadH, StrH ''Column_1''] ! 2 = ''Column_1_1''"
proof -
  have out: "clean_column_names [NoneH, BadH, StrH ''Column_1''] = [''Column_1'', ''Column_2'', ''Column_1_1'']"
    by code_simp
  have base: "base_label 2 (StrH ''Column_1'') = ''Column_1''"
    by code_simp
  have "(2::nat) < length [NoneH, BadH, StrH ''Column_1'']" by simp
  with clean_column_names_positions [of "[NoneH, BadH, StrH ''Column_1'']"]
  have "clean_column_names [NoneH, BadH, StrH ''Column_1''] ! 2 =
        dedupe (rev (take 2 (clean_column_names [NoneH, BadH, StrH ''Column_1''])))
          (base_label 2 ([NoneH, BadH, StrH ''Column_1''] ! 2))
          (base_label 2 ([NoneH, BadH, StrH ''Column_1''] ! 2)) 1"
    by blast
  then show ?thesis using out base by simp
qed

subsection \<open>Labels in normal form\<close>

text \<open>
  \<open>spaced l\<close>: every whitespace character of \<open>l\<close> is a single blank followed by a
  non-whitespace character.  \<open>tidy l\<close>: \<open>l\<close> is non-empty, starts with a non-whitespace
  character, is \<open>spaced\<close> and holds none of the invalid characters.  Every label the
  sanitizer emits is \<open>tidy\<close>, and the cleaning steps leave a \<open>tidy\<close> label of at most 50
  characters as it is.
\<close>

fun spaced :: "string \<Rightarrow> bool" where
  "spaced [] = True"
| "spaced [c] = (\<not> is_space c)"
| "spaced (c # d # r) = ((is_space c \<longrightarrow> c = CHR '' '' \<and> \<not> is_space d) \<and> spaced (d # r))"

definition tidy :: "string \<Rightarrow> bool" where
  "tidy l \<longleftrightarrow> l \<noteq> [] \<and> \<not> is_space (hd l) \<and> spaced l \<and> (\<forall>c \<in> set l. c \<notin> set invalid_chars)"

lemma spaced_suffix: "spaced (xs @ ys) \<Longrightarrow> spaced ys"
  by (induction xs rule: spaced.induct) (auto elim: spaced.elims)

lemma spaced_last: "spaced l \<Longrightarrow> l \<noteq> [] \<Longrightarrow> \<not> is_space (last l)"
  by (induction l rule: spaced.induct) auto

lemma spaced_only_blank: "spaced l \<Longrightarrow> c \<in> set l \<Longrightarrow> is_space c \<Longrightarrow> c = CHR '' ''"
  by (induction l rule: spaced.induct) auto

lemma spaced_append: "spaced xs \<Longrightarrow> spaced ys \<Longrightarrow> spaced (xs @ ys)"
  by (induction xs rule: spaced.induct) (cases ys; auto)+

lemma spaced_plain: "\<forall>c \<in> set l. \<not> is_space c \<Longrightarrow> spaced l"
  by (induction l rule: spaced.induct) auto

lemma spaced_take_append:
  "spaced l \<Longrightarrow> \<not> is_space c \<Longrightarrow> \<forall>x \<in> set r. \<not> is_space x \<Longrightarrow> spaced (take n l @ c # r)"
proof (induction l arbitrary: n rule: spaced.induct)
  case 1
  then show ?case by (simp add: spaced_plain)
next
  case (2 a)
  then show ?case by (cases n) (simp_all add: spaced_plain)
next
  case (3 a d r')
  show ?case
  proof (cases n)
    case 0
    with 3 show ?thesis by (simp add: spaced_plain)
  next
    case (Suc m)
    from 3 have ih: "spaced (take m (d # r') @ c # r)" by simp
    show ?thesis
    proof (cases m)
      case 0
      with Suc 3 show ?thesis by (simp add: spaced_plain)
    next
      case (Suc k)
      with \<open>n = Suc m\<close> ih 3 show ?thesis by simp
    qed
  qed
qed

lemma spaced_map:
  assumes "\<And>c. is_space (f c) \<longleftrightarrow> is_space c" and "\<And>c. is_space c \<Longrightarrow> f c = c"
  shows "spaced (map f l) = spaced l"
  using assms by (induction l rule: spaced.induct) auto

lemma dropWhile_hd_id: "l = [] \<or> \<not> P (hd l) \<Longrightarrow> dropWhile P l = l"
  by (cases l) auto

lemma strip_tidy: "spaced l \<Longrightarrow> l \<noteq> [] \<Longrightarrow> \<not> is_space (hd l) \<Longrightarrow> strip l = l"
proof -
  assume s: "spaced l" and n: "l \<noteq> []" and h: "\<not> is_space (hd l)"
  have 1: "dropWhile is_space l = l" using h by (simp add: dropWhile_hd_id)
  have "\<not> is_space (hd (rev l))" using spaced_last [OF s n] n by (simp add: hd_rev)
  then have 2: "dropWhile is_space (rev l) = rev l" by (simp add: dropWhile_hd_id)
  show ?thesis by (simp add: strip_def 1 2)
qed

lemma join_Cons: "join sep (w # ws) = (if ws = [] then w else w @ sep @ join sep ws)"
  by (cases ws) auto

lemma split_ws_Nil_iff: "split_ws s = [] \<longleftrightarrow> dropWhile is_space s = []"
  by (subst split_ws.simps) (simp add: Let_def)

lemma join_split_spaced: "spaced s \<Longrightarrow> join '' '' (split_ws s) = dropWhile is_space s"
proof (induction s rule: split_ws.induct)
  case (1 s)
  let ?t = "dropWhile is_space s"
  show ?case
  proof (cases "?t = []")
    case True
    then have e: "split_ws s = []" by (simp only: split_ws_Nil_iff)
    show ?thesis unfolding e True by simp
  next
    case False
    let ?w = "takeWhile (\<lambda>c. \<not> is_space c) ?t"
    let ?rest = "dropWhile (\<lambda>c. \<not> is_space c) ?t"
    have sp_t: "spaced ?t"
      using spaced_suffix [of "takeWhile is_space s" ?t] "1.prems" by simp
    have sp_rest: "spaced ?rest"
      using spaced_suffix [of ?w ?rest] sp_t by simp
    have ih: "join '' '' (split_ws ?rest) = dropWhile is_space ?rest"
      using "1.IH" [OF refl False sp_rest] .
    have unfold: "split_ws s = ?w # split_ws ?rest"
      using False by (subst split_ws.simps) (simp add: Let_def)
    have t_eq: "?w @ ?rest = ?t" by simp
    show ?thesis
    proof (cases "?rest = []")
      case True
      then have "split_ws ?rest = []" by (simp only: split_ws_Nil_iff dropWhile.simps)
      with unfold t_eq True show ?thesis by (metis append_Nil2 join.simps(2))
    next
      case nonempty: False
      then obtain c r where rest: "?rest = c # r" by (cases ?rest) auto
      then have spc: "is_space c" using hd_dropWhile [of "\<lambda>c. \<not> is_space c" ?t] nonempty by auto
      from sp_rest rest spc obtain d r' where r: "r = d # r'" and c: "c = CHR '' ''" and d: "\<not> is_space d"
        by (cases r) auto
      have dw: "dropWhile is_space ?rest = r" using rest spc r d by simp
      then have "split_ws ?rest \<noteq> []" using r by (simp add: split_ws_Nil_iff)
      then have "join '' '' (split_ws s) = ?w @ '' '' @ join '' '' (split_ws ?rest)"
        by (simp add: unfold join_Cons)
      also have "\<dots> = ?w @ ?rest" using ih dw rest c by simp
      finally show ?thesis using t_eq by simp
    qed
  qed
qed

lemma fold_replace:
  "fold (\<lambda>c s. replace_char c b s) cs l = map (\<lambda>x. if x \<in> set cs then b else x) l"
proof (induction cs arbitrary: l)
  case Nil
  show ?case by simp
next
  case (Cons a cs)
  have "fold (\<lambda>c s. replace_char c b s) (a # cs) l =
        fold (\<lambda>c s. replace_char c b s) cs (replace_char a b l)" by simp
  also have "\<dots> = map (\<lambda>x. if x \<in> set cs then b else x) (replace_char a b l)"
    by (rule Cons.IH)
  also have "\<dots> = map (\<lambda>x. if x \<in> set (a # cs) then b else x) l"
    by (auto simp: replace_char_def)
  finally show ?case .
qed

definition plain :: "char \<Rightarrow> bool" where
  "plain c \<longleftrightarrow> \<not> is_space c \<and> c \<notin> set invalid_chars"

lemma tidy_plain: "l \<noteq> [] \<Longrightarrow> \<forall>c \<in> set l. plain c \<Longrightarrow> tidy l"
  by (cases l) (auto simp: tidy_def plain_def spaced_plain)

lemma tidy_append_plain:
  assumes "tidy l" and "\<forall>c \<in> set r. plain c"
  shows "tidy (l @ r)"
proof -
  have "spaced r" using assms(2) by (simp add: spaced_plain plain_def)
  then have "spaced (l @ r)" using assms(1) by (simp add: tidy_def spaced_append)
  then show ?thesis using assms by (auto simp: tidy_def plain_def)
qed

lemma plain_digit: "d < 10 \<Longrightarrow> plain (digit_char d)"
proof -
  assume "d < 10"
  have all: "\<forall>c \<in> set ''0123456789''. plain c"
    by (simp add: plain_def is_space_def whitespace_def invalid_chars_def)
  have "''0123456789'' ! d \<in> set ''0123456789''"
    using \<open>d < 10\<close> by (intro nth_mem) simp
  with all show ?thesis unfolding digit_char_def by blast
qed

lemma plain_str_nat: "\<forall>c \<in> set (str_nat n). plain c"
proof (induction n rule: str_nat.induct)
  case (1 n)
  show ?case
  proof (cases "n < 10")
    case True
    then show ?thesis by (subst str_nat.simps) (simp add: plain_digit)
  next
    case False
    then show ?thesis using 1 by (subst str_nat.simps) (simp add: plain_digit)
  qed
qed

lemma plain_underscore: "plain (CHR ''_'')"
  by (simp add: plain_def is_space_def whitespace_def invalid_chars_def)

lemma plain_Column: "\<forall>c \<in> set ''Column_''. plain c"
  by (simp add: plain_def is_space_def whitespace_def invalid_chars_def)

lemma tidy_column_name: "tidy (column_name i)"
  unfolding column_name_def
  by (rule tidy_plain) (use plain_str_nat plain_Column in auto)


lemma tidy_numbered: "tidy l \<Longrightarrow> tidy (numbered l n)"
  unfolding numbered_def
  by (rule tidy_append_plain) (use plain_str_nat plain_underscore in auto)

lemma tidy_dedupe: "tidy original \<Longrightarrow> tidy header \<Longrightarrow> tidy (dedupe seen original header counter)"
  by (induction seen original header counter rule: dedupe.induct)
     (subst dedupe.simps, simp add: tidy_numbered)

lemma strip_has_text: "strip s \<noteq> [] \<Longrightarrow> \<exists>c \<in> set (strip s). \<not> is_space c"
proof -
  assume n: "strip s \<noteq> []"
  let ?d = "dropWhile is_space (rev (dropWhile is_space s))"
  from n have "?d \<noteq> []" by (simp add: strip_def)
  then have "\<not> is_space (hd ?d)" "hd ?d \<in> set ?d" by (simp_all add: hd_dropWhile)
  moreover have "set (strip s) = set ?d" by (simp add: strip_def)
  ultimately show ?thesis by blast
qed

lemma split_ws_words: "w \<in> set (split_ws s) \<Longrightarrow> w \<noteq> [] \<and> (\<forall>c \<in> set w. \<not> is_space c)"
proof (induction s rule: split_ws.induct)
  case (1 s)
  let ?t = "dropWhile is_space s"
  show ?case
  proof (cases "?t = []")
    case True
    then have "split_ws s = []" by (simp only: split_ws_Nil_iff)
    with "1.prems" show ?thesis by simp
  next
    case False
    let ?w = "takeWhile (\<lambda>c. \<not> is_space c) ?t"
    let ?rest = "dropWhile (\<lambda>c. \<not> is_space c) ?t"
    have unfold: "split_ws s = ?w # split_ws ?rest"
      using False by (subst split_ws.simps) (simp add: Let_def)
    have "\<not> is_space (hd ?t)" using False by (rule hd_dropWhile)
    then have w1: "?w \<noteq> []" using False by (cases ?t) auto
    have w2: "\<forall>c \<in> set ?w. \<not> is_space c" by (auto dest: set_takeWhileD)
    from "1.prems" have "w \<in> set (?w # split_ws ?rest)" by (simp only: unfold)
    then have "w = ?w \<or> w \<in> set (split_ws ?rest)" by (simp only: set_simps insert_iff)
    then show ?thesis
    proof
      assume e: "w = ?w"
      show ?thesis unfolding e by (rule conjI [OF w1 w2])
    next
      assume "w \<in> set (split_ws ?rest)"
      then show ?thesis by (rule "1.IH" [OF refl False])
    qed
  qed
qed

lemma join_words_spaced:
  "ws \<noteq> [] \<Longrightarrow> \<forall>w \<in> set ws. w \<noteq> [] \<and> (\<forall>c \<in> set w. \<not> is_space c) \<Longrightarrow>
   join '' '' ws \<noteq> [] \<and> \<not> is_space (hd (join '' '' ws)) \<and> spaced (join '' '' ws)"
proof (induction "'' ''" ws rule: join.induct)
  case 1
  then show ?case by simp
next
  case (2 p)
  then show ?case by (cases p) (auto simp: spaced_plain)
next
  case (3 p q ps)
  then have ih: "join '' '' (q # ps) \<noteq> []" "\<not> is_space (hd (join '' '' (q # ps)))"
    "spaced (join '' '' (q # ps))" by auto
  then obtain d r where j: "join '' '' (q # ps) = d # r" by (cases "join '' '' (q # ps)") auto
  with ih have "spaced (CHR '' '' # join '' '' (q # ps))" by simp
  moreover have "spaced p" using 3 by (simp add: spaced_plain)
  ultimately have "spaced (p @ CHR '' '' # join '' '' (q # ps))" by (rule spaced_append[rotated])
  moreover have "p \<noteq> []" "\<not> is_space (hd p)" using 3 by (cases p; auto)+
  ultimately show ?case by simp
qed

lemma replace_char_absent: "a \<notin> set l \<Longrightarrow> replace_char a b l = l"
  by (induction l) (auto simp: replace_char_def)

lemma invalid_not_space: "c \<in> set invalid_chars \<Longrightarrow> \<not> is_space c"
  by (auto simp: invalid_chars_def is_space_def whitespace_def)

lemma tidy_limit_length: "tidy l \<Longrightarrow> tidy (limit_length l)"
proof (cases "length l > 50")
  case False
  assume "tidy l" with False show ?thesis by (simp add: limit_length_def)
next
  case True
  assume t: "tidy l"
  then obtain a r where l: "l = a # r" by (cases l) (auto simp: tidy_def)
  have "spaced (take 47 l @ CHR ''.'' # ''..'')"
    using t by (intro spaced_take_append) (auto simp: tidy_def is_space_def whitespace_def)
  moreover have "\<forall>c \<in> set (take 47 l @ ''...''). c \<notin> set invalid_chars"
    using t by (auto simp: tidy_def invalid_chars_def dest: in_set_takeD)
  moreover have "hd (take 47 l @ ''...'') = hd l" by (simp add: l)
  ultimately show ?thesis using True t by (simp add: limit_length_def tidy_def)
qed

lemma tidy_clean_text:
  assumes "strip s \<noteq> []"
  shows "tidy (clean_text (strip s))"
proof -
  let ?h = "strip s"
  let ?h1 = "replace_char (CHR 0x0D) (CHR '' '') (replace_char (CHR 0x0A) (CHR '' '') ?h)"
  let ?h2 = "join '' '' (split_ws ?h1)"
  let ?f = "\<lambda>x. if x \<in> set invalid_chars then CHR ''_'' else x"
  let ?h3 = "map ?f ?h2"
  obtain c where c: "c \<in> set ?h" "\<not> is_space c" using strip_has_text [OF assms] by blast
  then have "c \<noteq> CHR 0x0A" "c \<noteq> CHR 0x0D" by (auto simp: is_space_def whitespace_def)
  with c have "c \<in> set ?h1" by (force simp: replace_char_def)
  with c have "dropWhile is_space ?h1 \<noteq> []" by (auto simp: dropWhile_eq_Nil_conv)
  then have "split_ws ?h1 \<noteq> []" by (simp only: split_ws_Nil_iff not_False_eq_True)
  then have h2: "?h2 \<noteq> []" "\<not> is_space (hd ?h2)" "spaced ?h2"
    using join_words_spaced [of "split_ws ?h1"] split_ws_words by blast+
  have fs: "\<And>c. is_space (?f c) \<longleftrightarrow> is_space c"
    using invalid_not_space by (auto simp: is_space_def whitespace_def)
  have ff: "\<And>c. is_space c \<Longrightarrow> ?f c = c" using invalid_not_space by auto
  have "spaced ?h3" using spaced_map [of ?f ?h2, OF fs ff] h2 by simp
  moreover have "\<not> is_space (hd ?h3)" using h2 fs by (simp add: hd_map)
  moreover have "\<forall>c \<in> set ?h3. c \<notin> set invalid_chars" by (auto simp: invalid_chars_def)
  moreover have "?h3 \<noteq> []" using h2 by simp
  ultimately have "tidy ?h3" unfolding tidy_def by blast
  then have "tidy (limit_length ?h3)" by (rule tidy_limit_length)
  then show ?thesis by (simp add: clean_text_def fold_replace Let_def)
qed

lemma tidy_base_label: "tidy (base_label i h)"
  by (cases h) (auto simp: base_label_def clean_one_def tidy_column_name tidy_clean_text Let_def)

lemma clean_one_tidy:
  assumes "tidy l" and "length l \<le> 50"
  shows "clean_one i (StrH l) = Inr l"
proof -
  from assms(1) have sp: "spaced l" and ne: "l \<noteq> []" and hd: "\<not> is_space (hd l)"
    and iv: "\<forall>c \<in> set l. c \<notin> set invalid_chars" by (auto simp: tidy_def)
  have st: "strip l = l" using sp ne hd by (rule strip_tidy)
  have "is_space (CHR 0x0A)" "is_space (CHR 0x0D)" by (simp_all add: is_space_def whitespace_def)
  then have "CHR 0x0A \<notin> set l" "CHR 0x0D \<notin> set l"
    using spaced_only_blank [OF sp] by fastforce+
  then have h1: "replace_char (CHR 0x0D) (CHR '' '') (replace_char (CHR 0x0A) (CHR '' '') l) = l"
    by (simp add: replace_char_absent)
  have h2: "join '' '' (split_ws l) = l"
    using join_split_spaced [OF sp] hd ne by (simp add: dropWhile_hd_id)
  have h3: "fold (\<lambda>c s. replace_char c (CHR ''_'') s) invalid_chars l = l"
    using iv by (simp add: fold_replace map_idI)
  have "clean_text l = l" using assms(2) by (simp add: clean_text_def h1 h2 h3 limit_length_def Let_def)
  then show ?thesis using ne by (simp add: clean_one_def st Let_def)
qed

lemma clean_loop_tidy:
  "\<forall>l \<in> set cleaned. tidy l \<Longrightarrow> \<forall>l \<in> set (clean_loop i hs cleaned seen). tidy l"
proof (induction hs arbitrary: i cleaned seen)
  case Nil
  then show ?case by simp
next
  case (Cons h hs)
  have "tidy (dedupe seen (base_label i h) (base_label i h) 1)"
    by (intro tidy_dedupe tidy_base_label)
  with Cons.prems show ?case unfolding clean_loop_step by (intro Cons.IH) auto
qed

lemma dedupe_unseen: "header \<notin> set seen \<Longrightarrow> dedupe seen original header counter = header"
  by (subst dedupe.simps) simp

lemma clean_loop_fixed:
  assumes "\<forall>l \<in> set ls. tidy l \<and> length l \<le> 50" and "distinct ls" and "set ls \<inter> set seen = {}"
  shows "clean_loop i (map StrH ls) cleaned seen = cleaned @ ls"
  using assms
proof (induction ls arbitrary: i cleaned seen)
  case Nil
  then show ?case by simp
next
  case (Cons l ls)
  have b: "base_label i (StrH l) = l" using Cons.prems(1) by (simp add: base_label_def clean_one_tidy)
  have d: "dedupe seen l l 1 = l" using Cons.prems(3) by (simp add: dedupe_unseen)
  have "clean_loop (i + 1) (map StrH ls) (cleaned @ [l]) (l # seen) = (cleaned @ [l]) @ ls"
    using Cons.prems by (intro Cons.IH) auto
  then show ?case using d by (simp add: clean_loop_step b)
qed

text \<open>
  C5 (as stated).  Sanitizing an already sanitized header list does not always return it
  unchanged: the suffix \<open>_1\<close> appended to a 49-character duplicate gives a label of 51
  characters, which the length limit of the second pass cuts to 47 characters and an
  ellipsis.
\<close>

theorem clean_column_names_idempotent_counterexample:
  "clean_column_names
     [StrH ''Average monthly rainfall in millimetres 1991-2020'',
      StrH ''Average monthly rainfall in millimetres 1991-2020''] =
     [''Average monthly rainfall in millimetres 1991-2020'',
      ''Average monthly rainfall in millimetres 1991-2020_1''] \<and>
   clean_column_names (map StrH
     [''Average monthly rainfall in millimetres 1991-2020'',
      ''Average monthly rainfall in millimetres 1991-2020_1'']) =
     [''Average monthly rainfall in millimetres 1991-2020'',
      ''Average monthly rainfall in millimetres 1991-20...''] \<and>
   clean_column_names (map StrH (clean_column_names
     [StrH ''Average monthly rainfall in millimetres 1991-2020'',
      StrH ''Average monthly rainfall in millimetres 1991-2020''])) \<noteq>
   clean_column_names
     [StrH ''Average monthly rainfall in millimetres 1991-2020'',
      StrH ''Average monthly rainfall in millimetres 1991-2020'']"
  by code_simp

text \<open>
  C5 (amended).  The sanitizer is idempotent on every output that holds no label longer
  than 50 characters: applying it to such an output returns the output unchanged.
\<close>

theorem clean_column_names_idempotent:
  assumes "\<forall>l \<in> set (clean_column_names headers). length l \<le> 50"
  shows "clean_column_names (map StrH (clean_column_names headers)) = clean_column_names headers"
proof -
  have "\<forall>l \<in> set (clean_column_names headers). tidy l"
    unfolding clean_column_names_def by (rule clean_loop_tidy) simp
  with assms have "\<forall>l \<in> set (clean_column_names headers). tidy l \<and> length l \<le> 50" by blast
  moreover have "distinct (clean_column_names headers)"
    unfolding clean_column_names_def by (rule clean_loop_distinct) simp_all
  ultimately have "clean_loop 0 (map StrH (clean_column_names headers)) [] [] = [] @ clean_column_names headers"
    by (intro clean_loop_fixed) simp_all
  then show ?thesis by (simp add: clean_column_names_def)
qed

theorem clean_column_names_idempotent_witness:
  "clean_column_names [NoneH, StrH '' Name '', StrH ''Name'', StrH ''a/b''] =
     [''Column_1'', ''Name'', ''Name_1'', ''a_b''] \<and>
   list_all (\<lambda>l. length l \<le> 50) (clean_column_names [NoneH, StrH '' Name '', StrH ''Name'', StrH ''a/b'']) \<and>
   clean_column_names (map StrH (clean_column_names [NoneH, StrH '' Name '', StrH ''Name'', StrH ''a/b''])) =
     [''Column_1'', ''Name'', ''Name_1'', ''a_b'']"
proof -
  have out: "clean_column_names [NoneH, StrH '' Name '', StrH ''Name'', StrH ''a/b''] =
     [''Column_1'', ''Name'', ''Name_1'', ''a_b'']"
    by code_simp
  then have short: "\<forall>l \<in> set (clean_column_names [NoneH, StrH '' Name '', StrH ''Name'', StrH ''a/b'']). length l \<le> 50"
    by simp
  from clean_column_names_idempotent [OF short] out short show ?thesis
    by (simp add: list_all_iff)
qed

section \<open>The PDF and OCR capabilities\<close>

text \<open>
  What the program reads from \<open>pdfplumber\<close>, \<open>pdf2image\<close> and \<open>pytesseract\<close> is the
  input of the model.  A call that can raise returns \<open>py_error + 'a\<close>; the same call on
  the same page returns the same value each time.  Coordinates are integers here.
\<close>

datatype cell =
    NoneC            \<comment> \<open>\<open>None\<close> or a missing value\<close>
  | IntC int
  | StrC string

type_synonym pydict = "(string \<times> cell) list"

record page =
  extract_tables :: "py_error + string option list list list"  \<comment> \<open>\<open>page.extract_tables()\<close>\<close>
  extract_text :: "py_error + string option"                   \<comment> \<open>\<open>page.extract_text()\<close>\<close>
  extract_words :: "py_error + pydict list"                    \<comment> \<open>\<open>page.extract_words()\<close>\<close>
  images :: "pydict list"                                      \<comment> \<open>\<open>page.images\<close>\<close>
  annots :: "pydict list"                                      \<comment> \<open>\<open>page.annots\<close>\<close>

record document =
  path_exists :: bool                                   \<comment> \<open>\<open>os.path.exists(pdf_path)\<close>\<close>
  pdf_pages :: "py_error + page list"                   \<comment> \<open>\<open>pdfplumber.open(pdf_path).pages\<close>\<close>
  ocr_pages :: "py_error + (py_error + string) list"
    \<comment> \<open>\<open>convert_from_path(pdf_path)\<close>, and \<open>pytesseract.image_to_string\<close> of each image\<close>

section \<open>The type detector: \<open>PDFExtractor.is_text_based\<close>\<close>

fun scan_pages :: "page list \<Rightarrow> py_error + bool" where
  "scan_pages [] = Inr False"
| "scan_pages (p # ps) =
     (case extract_text p of
        Inl e \<Rightarrow> Inl e
      | Inr None \<Rightarrow> scan_pages ps
      | Inr (Some text) \<Rightarrow>
          if text \<noteq> [] \<and> length (strip text) > 50 then Inr True else scan_pages ps)"

text \<open>The body of the \<open>try\<close>, and the function with its \<open>except\<close> clause.\<close>

definition is_text_based_try :: "document \<Rightarrow> py_error + bool" where
  "is_text_based_try doc =
     (case pdf_pages doc of Inl e \<Rightarrow> Inl e | Inr pages \<Rightarrow> scan_pages pages)"

definition is_text_based :: "document \<Rightarrow> bool" where
  "is_text_based doc = (case is_text_based_try doc of Inl e \<Rightarrow> False | Inr b \<Rightarrow> b)"

text \<open>
  \<open>long_text p\<close>: the stripped text of page \<open>p\<close> is longer than the threshold of 50
  characters.  \<open>text_fails p\<close>: reading the text of \<open>p\<close> raises.
\<close>

definition long_text :: "page \<Rightarrow> bool" where
  "long_text p =
     (case extract_text p of Inr (Some text) \<Rightarrow> 50 < length (strip text) | _ \<Rightarrow> False)"

definition text_fails :: "page \<Rightarrow> bool" where
  "text_fails p = (case extract_text p of Inl e \<Rightarrow> True | Inr t \<Rightarrow> False)"

lemma strip_Nil [simp]: "strip [] = []"
  by (simp add: strip_def)

lemma scan_pages_step:
  "scan_pages (p # ps) =
     (if text_fails p then (case extract_text p of Inl e \<Rightarrow> Inl e | Inr t \<Rightarrow> Inr False)
      else if long_text p then Inr True else scan_pages ps)"
  by (auto simp: text_fails_def long_text_def split: sum.splits option.splits)

lemma long_text_not_fails: "long_text p \<Longrightarrow> \<not> text_fails p"
  by (auto simp: long_text_def text_fails_def split: sum.splits)

lemma scan_pages_iff:
  "scan_pages ps = Inr True \<longleftrightarrow>
     (\<exists>i < length ps. long_text (ps ! i) \<and> (\<forall>j < i. \<not> text_fails (ps ! j)))"
proof (induction ps)
  case Nil
  show ?case by simp
next
  case (Cons p ps)
  let ?R = "\<lambda>qs. \<exists>i < length qs. long_text (qs ! i) \<and> (\<forall>j < i. \<not> text_fails (qs ! j))"
  show ?case
  proof (cases "text_fails p")
    case True
    then have "scan_pages (p # ps) \<noteq> Inr True"
      by (auto simp: scan_pages_step text_fails_def simp del: scan_pages.simps(2)
          split: sum.splits)
    moreover have "\<not> ?R (p # ps)"
    proof
      assume "?R (p # ps)"
      then obtain i where i: "long_text ((p # ps) ! i)" "\<forall>j < i. \<not> text_fails ((p # ps) ! j)"
        by blast
      show False
      proof (cases i)
        case 0
        with i(1) True show False by (simp add: long_text_not_fails)
      next
        case (Suc k)
        with i(2) have "\<not> text_fails ((p # ps) ! 0)" by blast
        with True show False by simp
      qed
    qed
    ultimately show ?thesis by blast
  next
    case False
    show ?thesis
    proof (cases "long_text p")
      case True
      then have "scan_pages (p # ps) = Inr True"
        using False by (simp add: scan_pages_step del: scan_pages.simps(2))
      moreover have "?R (p # ps)" using True by (intro exI [of _ 0]) simp
      ultimately show ?thesis by blast
    next
      case nl: False
      have s: "scan_pages (p # ps) = scan_pages ps"
        using False nl by (simp add: scan_pages_step del: scan_pages.simps(2))
      have "?R (p # ps) \<longleftrightarrow> ?R ps"
      proof
        assume "?R (p # ps)"
        then obtain i where i: "i < length (p # ps)" "long_text ((p # ps) ! i)"
          "\<forall>j < i. \<not> text_fails ((p # ps) ! j)"
          by blast
        from i(2) nl obtain k where k: "i = Suc k" by (cases i) simp_all
        have "\<forall>j < k. \<not> text_fails (ps ! j)"
        proof (intro allI impI)
          fix j assume "j < k"
          then have "Suc j < i" using k by simp
          with i(3) have "\<not> text_fails ((p # ps) ! Suc j)" by blast
          then show "\<not> text_fails (ps ! j)" by simp
        qed
        with i(1,2) k show "?R ps" by (intro exI [of _ k]) simp
      next
        assume "?R ps"
        then obtain k where k: "k < length ps" "long_text (ps ! k)"
          "\<forall>j < k. \<not> text_fails (ps ! j)"
          by blast
        have "\<forall>j < Suc k. \<not> text_fails ((p # ps) ! j)"
        proof (intro allI impI)
          fix j assume j: "j < Suc k"
          show "\<not> text_fails ((p # ps) ! j)"
          proof (cases j)
            case 0
            with False show ?thesis by simp
          next
            case (Suc m)
            with j k(3) show ?thesis by simp
          qed
        qed
        with k(1,2) show "?R (p # ps)" by (intro exI [of _ "Suc k"]) simp
      qed
      with s Cons.IH show ?thesis by simp
    qed
  qed
qed

text \<open>
  C7.  \<open>is_text_based\<close> never raises (it is a total function to \<open>bool\<close>).  It returns
  \<open>True\<close> exactly when the document can be opened and some single page has stripped text
  longer than 50 characters, reading the text of no page before it having raised.  So
  \<^item> when the document cannot be opened, it returns \<open>False\<close> (image-based, the OCR path);
  \<^item> when reading a page's text raises before any page with long text was seen, it
    returns \<open>False\<close>;
  \<^item> a page behind the first page with long text is never read.
\<close>

theorem is_text_based_per_page_and_safe:
  "(is_text_based doc \<longleftrightarrow>
      (\<exists>pages i content.
          pdf_pages doc = Inr pages \<and> i < length pages \<and>
          extract_text (pages ! i) = Inr (Some content) \<and> 50 < length (strip content) \<and>
          (\<forall>j < i. \<not> isl (extract_text (pages ! j))))) \<and>
   (\<forall>e. pdf_pages doc = Inl e \<longrightarrow> \<not> is_text_based doc) \<and>
   (\<forall>pages i. pdf_pages doc = Inr pages \<and> i < length pages \<and> isl (extract_text (pages ! i)) \<and>
       (\<forall>j < i. \<forall>content. extract_text (pages ! j) = Inr (Some content) \<longrightarrow>
                   length (strip content) \<le> 50) \<longrightarrow>
       \<not> is_text_based doc)"
proof -
  have l: "long_text p \<longleftrightarrow> (\<exists>content. extract_text p = Inr (Some content) \<and>
      50 < length (strip content))" for p
    by (auto simp: long_text_def split: sum.splits option.splits)
  have f: "text_fails p \<longleftrightarrow> isl (extract_text p)" for p
    by (auto simp: text_fails_def split: sum.splits)
  have a: "is_text_based doc \<longleftrightarrow>
      (\<exists>pages i. pdf_pages doc = Inr pages \<and> i < length pages \<and> long_text (pages ! i) \<and>
         (\<forall>j < i. \<not> text_fails (pages ! j)))"
  proof (cases "pdf_pages doc")
    case (Inl e)
    then show ?thesis by (simp add: is_text_based_def is_text_based_try_def)
  next
    case (Inr pages)
    have "is_text_based doc \<longleftrightarrow> scan_pages pages = Inr True"
      using Inr by (auto simp: is_text_based_def is_text_based_try_def split: sum.splits)
    then show ?thesis using Inr by (simp add: scan_pages_iff)
  qed
  have b: "is_text_based doc \<longleftrightarrow>
      (\<exists>pages i content.
          pdf_pages doc = Inr pages \<and> i < length pages \<and>
          extract_text (pages ! i) = Inr (Some content) \<and> 50 < length (strip content) \<and>
          (\<forall>j < i. \<not> isl (extract_text (pages ! j))))"
    unfolding a l f by blast
  have c: "\<not> is_text_based doc" if "pdf_pages doc = Inl e" for e
    using that by (simp add: is_text_based_def is_text_based_try_def)
  have d: "\<not> is_text_based doc"
    if p: "pdf_pages doc = Inr pages" and i: "i < length pages" "isl (extract_text (pages ! i))"
      and n: "\<forall>j < i. \<forall>content. extract_text (pages ! j) = Inr (Some content) \<longrightarrow>
                length (strip content) \<le> 50"
    for pages i
  proof
    assume "is_text_based doc"
    with a p obtain k where k: "k < length pages" "long_text (pages ! k)"
      "\<forall>j < k. \<not> text_fails (pages ! j)"
      by auto
    from k(2) obtain content where t: "extract_text (pages ! k) = Inr (Some content)"
      "50 < length (strip content)"
      unfolding l by blast
    have "\<not> k < i" using n t by fastforce
    moreover have "k \<noteq> i" using i(2) t(1) by auto
    moreover have "\<not> i < k" using k(3) i(2) f by blast
    ultimately show False by linarith
  qed
  from b c d show ?thesis by blast
qed

definition text_page :: "string \<Rightarrow> page" where
  \<comment> \<open>a page that holds the given text and nothing else\<close>
  "text_page t =
     \<lparr>extract_tables = Inr [], extract_text = Inr (Some t), extract_words = Inr [],
      images = [], annots = []\<rparr>"

definition failing_page :: page where
  \<comment> \<open>a page on which every extraction call raises\<close>
  "failing_page =
     \<lparr>extract_tables = Inl LibraryError, extract_text = Inl LibraryError,
      extract_words = Inl LibraryError, images = [], annots = []\<rparr>"

definition padded_page :: page where
  \<comment> \<open>49 letters with blanks around them: 55 characters, 49 after stripping\<close>
  "padded_page = text_page ''   abcdefghijklmnopqrstuvwxyzabcdefghijklmnopqrstuvw   ''"

definition long_page :: page where
  \<comment> \<open>51 letters with blanks around them\<close>
  "long_page = text_page ''  abcdefghijklmnopqrstuvwxyzabcdefghijklmnopqrstuvwxy  ''"

definition pdf_of :: "page list \<Rightarrow> document" where
  "pdf_of pages = \<lparr>path_exists = True, pdf_pages = Inr pages, ocr_pages = Inr []\<rparr>"

text \<open>
  The detector at five documents: a long page behind short ones; a page that is longer
  than the threshold only with its blanks; a failing page behind a long page (never
  read); a failing page before the long page; a document that cannot be opened.
\<close>

theorem is_text_based_per_page_and_safe_witness:
  "is_text_based (pdf_of [text_page ''Short'', padded_page, long_page]) \<and>
   \<not> is_text_based (pdf_of [text_page ''Short'', padded_page]) \<and>
   is_text_based (pdf_of [long_page, failing_page]) \<and>
   \<not> is_text_based (pdf_of [padded_page, failing_page, long_page]) \<and>
   \<not> is_text_based \<lparr>path_exists = True, pdf_pages = Inl LibraryError, ocr_pages = Inr []\<rparr>"
proof -
  let ?long = "''  abcdefghijklmnopqrstuvwxyzabcdefghijklmnopqrstuvwxy  ''"
  let ?padded = "''   abcdefghijklmnopqrstuvwxyzabcdefghijklmnopqrstuvw   ''"
  have s: "length (strip ?long) = 51" "length (strip ?padded) = 49" "length ?padded = 55"
    "length (strip ''Short'') = 5"
    by code_simp+
  have t: "extract_text long_page = Inr (Some ?long)"
    "extract_text padded_page = Inr (Some ?padded)"
    "extract_text (text_page ''Short'') = Inr (Some ''Short'')"
    "extract_text failing_page = Inl LibraryError"
    by (simp_all add: long_page_def padded_page_def text_page_def failing_page_def)
  let ?d1 = "pdf_of [text_page ''Short'', padded_page, long_page]"
  let ?d2 = "pdf_of [text_page ''Short'', padded_page]"
  let ?d3 = "pdf_of [long_page, failing_page]"
  let ?d4 = "pdf_of [padded_page, failing_page, long_page]"
  let ?d5 = "\<lparr>path_exists = True, pdf_pages = Inl LibraryError, ocr_pages = Inr []\<rparr>"
  have less2: "j < 2 \<longleftrightarrow> j = 0 \<or> j = 1" for j :: nat by auto
  have less1: "j < Suc 0 \<longleftrightarrow> j = 0" for j :: nat by auto
  have "is_text_based ?d1"
  proof -
    have "pdf_pages ?d1 = Inr [text_page ''Short'', padded_page, long_page] \<and>
        (2::nat) < length [text_page ''Short'', padded_page, long_page] \<and>
        extract_text ([text_page ''Short'', padded_page, long_page] ! 2) = Inr (Some ?long) \<and>
        50 < length (strip ?long) \<and>
        (\<forall>j < 2. \<not> isl (extract_text ([text_page ''Short'', padded_page, long_page] ! j)))"
      using s t by (auto simp: pdf_of_def less2)
    then show ?thesis using is_text_based_per_page_and_safe [of ?d1] by blast
  qed
  moreover have "\<not> is_text_based ?d2"
  proof
    assume "is_text_based ?d2"
    with is_text_based_per_page_and_safe [of ?d2] obtain pages i content where
      p: "pdf_pages ?d2 = Inr pages" "i < length pages"
        "extract_text (pages ! i) = Inr (Some content)" "50 < length (strip content)"
      by blast
    from p(1) have pages: "pages = [text_page ''Short'', padded_page]" by (simp add: pdf_of_def)
    with p(2) have "i = 0 \<or> i = 1" by auto
    with p(3,4) s t show False unfolding pages by auto
  qed
  moreover have "is_text_based ?d3"
  proof -
    have "pdf_pages ?d3 = Inr [long_page, failing_page] \<and>
        (0::nat) < length [long_page, failing_page] \<and>
        extract_text ([long_page, failing_page] ! 0) = Inr (Some ?long) \<and>
        50 < length (strip ?long) \<and>
        (\<forall>j < 0. \<not> isl (extract_text ([long_page, failing_page] ! j)))"
      using s t by (simp add: pdf_of_def)
    then show ?thesis using is_text_based_per_page_and_safe [of ?d3] by blast
  qed
  moreover have "\<not> is_text_based ?d4"
  proof -
    have "pdf_pages ?d4 = Inr [padded_page, failing_page, long_page] \<and>
        (1::nat) < length [padded_page, failing_page, long_page] \<and>
        isl (extract_text ([padded_page, failing_page, long_page] ! 1)) \<and>
        (\<forall>j < 1. \<forall>content.
            extract_text ([padded_page, failing_page, long_page] ! j) = Inr (Some content) \<longrightarrow>
            length (strip content) \<le> 50)"
      using s t by (simp add: pdf_of_def less1)
    then show ?thesis using is_text_based_per_page_and_safe [of ?d4] by blast
  qed
  moreover have "\<not> is_text_based ?d5"
    using is_text_based_per_page_and_safe [of ?d5] by simp
  ultimately show ?thesis by simp
qed

section \<open>Regular expressions as the classifier uses them\<close>

text \<open>
  The patterns of the classifier are built from literals, character classes, greedy
  repetitions of a class (\<open>Rep cs n\<close>: at least \<open>n\<close> characters of \<open>cs\<close>), options,
  sequences, alternatives, capturing groups and the end anchor \<open>$\<close>.  \<open>rmatch\<close> lists
  the ways a pattern matches a prefix of the input (the rest of the input and the
  captured groups), in the order in which Python's backtracking matcher tries them:
  longer repetitions first, the left alternative first.  \<open>re.match\<close> takes the first.
  With \<open>re.IGNORECASE\<close> (\<open>ic\<close>) a character is compared in lower case.
\<close>

definition upper_letters :: "char list" where
  "upper_letters = ''ABCDEFGHIJKLMNOPQRSTUVWXYZ''"

definition lower_letters :: "char list" where
  "lower_letters = ''abcdefghijklmnopqrstuvwxyz''"

definition decimal_digits :: "char list" where
  "decimal_digits = ''0123456789''"

definition to_lower :: "char \<Rightarrow> char" where
  \<comment> \<open>lower case of the letters A to Z; enough to compare with the ASCII characters of
      the patterns\<close>
  "to_lower c = (case map_of (zip upper_letters lower_letters) c of Some l \<Rightarrow> l | None \<Rightarrow> c)"

datatype cset =
    Dot                   \<comment> \<open>\<open>.\<close>: any character but the newline\<close>
  | Space                 \<comment> \<open>\<open>\s\<close>\<close>
  | Chars "char list"     \<comment> \<open>a set of characters: \<open>[IVX]\<close>, \<open>[a-z]\<close>, \<open>\d\<close>\<close>
  | Union cset cset

datatype regex =
    Lit string            \<comment> \<open>a literal string\<close>
  | Class cset            \<comment> \<open>one character of a class\<close>
  | Rep cset nat          \<comment> \<open>\<open>cs*\<close> is \<open>Rep cs 0\<close>, \<open>cs+\<close> is \<open>Rep cs 1\<close>, \<open>cs{2,}\<close> is \<open>Rep cs 2\<close>\<close>
  | Opt regex             \<comment> \<open>\<open>r?\<close>\<close>
  | Seq regex regex
  | Alt regex regex       \<comment> \<open>\<open>r1|r2\<close>\<close>
  | Group regex           \<comment> \<open>\<open>(r)\<close>\<close>
  | Eol                   \<comment> \<open>\<open>$\<close>: the end of the string, or just before a final newline\<close>

fun cat :: "regex list \<Rightarrow> regex" where
  "cat [] = Lit []"
| "cat (r # rs) = Seq r (cat rs)"

definition chr_eq :: "bool \<Rightarrow> char \<Rightarrow> char \<Rightarrow> bool" where
  "chr_eq ic a c = (if ic then to_lower a = to_lower c else a = c)"

fun cmatch :: "bool \<Rightarrow> cset \<Rightarrow> char \<Rightarrow> bool" where
  "cmatch ic Dot c = (c \<noteq> CHR 0x0A)"
| "cmatch ic Space c = is_space c"
| "cmatch ic (Chars l) c = (if ic then to_lower c \<in> set (map to_lower l) else c \<in> set l)"
| "cmatch ic (Union a b) c = (cmatch ic a c \<or> cmatch ic b c)"

fun rmatch :: "bool \<Rightarrow> regex \<Rightarrow> string \<Rightarrow> (string \<times> string list) list" where
  "rmatch ic (Lit l) s =
     (if length l \<le> length s \<and> list_all2 (chr_eq ic) l (take (length l) s)
      then [(drop (length l) s, [])] else [])"
| "rmatch ic (Class cs) s =
     (case s of [] \<Rightarrow> [] | c # r \<Rightarrow> if cmatch ic cs c then [(r, [])] else [])"
| "rmatch ic (Rep cs lo) s =
     (let k = length (takeWhile (cmatch ic cs) s)
      in map (\<lambda>n. (drop n s, [])) (rev [lo..<k + 1]))"
| "rmatch ic (Opt r) s = rmatch ic r s @ [(s, [])]"
| "rmatch ic (Seq r1 r2) s =
     concat (map (\<lambda>(s1, g1). map (\<lambda>(s2, g2). (s2, g1 @ g2)) (rmatch ic r2 s1)) (rmatch ic r1 s))"
| "rmatch ic (Alt r1 r2) s = rmatch ic r1 s @ rmatch ic r2 s"
| "rmatch ic (Group r) s =
     map (\<lambda>(s1, g). (s1, take (length s - length s1) s # g)) (rmatch ic r s)"
| "rmatch ic Eol s = (if s = [] \<or> s = [CHR 0x0A] then [(s, [])] else [])"

definition re_match :: "bool \<Rightarrow> regex \<Rightarrow> string \<Rightarrow> string list option" where
  "re_match ic r s = (case rmatch ic r s of [] \<Rightarrow> None | (rest, groups) # other \<Rightarrow> Some groups)"

datatype unit_kind = StandardU | SubjectU | CodeU
datatype topic_kind = MarkerT | ObjectiveT

text \<open>
  The three pattern lists of \<open>organize_syllabus_structure\<close>, in the source's order.  The
  tag tells which format branch the source takes for the pattern (\<open>'Subject:' in pattern\<close>,
  \<open>'Code' in pattern\<close>, the three \<open>Objective\<close> patterns).  The bullet U+2022 of the first
  topic pattern lies outside the model's alphabet: its alternative is the empty class.
\<close>

definition unit_patterns :: "(unit_kind \<times> regex) list" where
  "unit_patterns =
    [(StandardU, cat [Group (Rep (Chars decimal_digits) 1), Opt (Lit ''.''), Rep Space 0,
                      Group (Rep Dot 1), Eol]),
     (StandardU, cat [Lit ''Unit'', Rep Space 1, Group (Rep (Chars decimal_digits) 1),
                      Opt (Class (Chars '':.'')), Rep Space 0, Group (Rep Dot 1), Eol]),
     (StandardU, cat [Group (Rep (Chars ''IVX'') 1), Opt (Lit ''.''), Rep Space 0,
                      Group (Rep Dot 1), Eol]),
     (StandardU, cat [Lit ''Chapter'', Rep Space 1, Group (Rep (Chars decimal_digits) 1),
                      Opt (Class (Chars '':.'')), Rep Space 0, Group (Rep Dot 1), Eol]),
     (StandardU, cat [Lit ''PAPER'', Opt (Class (Union (Chars ''-'') Space)),
                      Group (Rep (Chars decimal_digits) 1), Opt (Class (Chars '':.'')),
                      Rep Space 0, Group (Rep Dot 1), Eol]),
     (SubjectU, cat [Lit ''Subject:'', Rep Space 0, Group (Rep Dot 1), Eol]),
     (CodeU, cat [Lit ''Code'', Rep Space 1, Lit ''No.'', Rep Space 0, Lit '':'', Rep Space 0,
                  Group (Rep (Chars decimal_digits) 1), Rep Space 0, Group (Rep Dot 1), Eol])]"

definition topic_patterns :: "(topic_kind \<times> regex) list" where
  "topic_patterns =
    [(MarkerT, cat [Group (Alt (Seq (Class (Chars lower_letters)) (Lit '')''))
                      (Alt (Class (Chars [])) (Alt (Lit ''*'') (Lit ''-'')))),
                    Rep Space 0, Group (Rep Dot 1), Eol]),
     (MarkerT, cat [Group (cat [Rep (Chars decimal_digits) 1, Lit ''.'', Rep (Chars decimal_digits) 1]),
                    Rep Space 0, Group (Rep Dot 1), Eol]),
     (MarkerT, cat [Lit ''('', Group (Rep (Chars decimal_digits) 1), Lit '')'', Rep Space 0,
                    Group (Rep Dot 1), Eol]),
     (MarkerT, cat [Group (Class (Chars upper_letters)), Lit ''.'', Rep Space 0,
                    Group (Rep Dot 1), Eol]),
     (ObjectiveT, cat [Lit ''The'', Rep Space 1, Group (Rep Dot 1), Eol]),
     (ObjectiveT, cat [Lit ''This'', Rep Space 1, Group (Rep Dot 1), Eol]),
     (ObjectiveT, cat [Lit ''It'', Rep Space 1, Group (Rep Dot 1), Eol])]"

definition subtopic_patterns :: "(unit \<times> regex) list" where
  "subtopic_patterns =
    [((), cat [Group (Rep Space 2), Group (Rep Dot 1), Eol]),
     ((), cat [Group (cat [Rep (Chars decimal_digits) 1, Lit ''.'', Rep (Chars decimal_digits) 1,
                           Lit ''.'', Rep (Chars decimal_digits) 1]),
               Rep Space 0, Group (Rep Dot 1), Eol]),
     ((), cat [Lit ''('', Group (Rep (Chars decimal_digits) 1), Lit '')'', Rep Space 0,
               Group (Rep Dot 1), Eol])]"

fun first_match :: "('k \<times> regex) list \<Rightarrow> string \<Rightarrow> ('k \<times> string list) option" where
  "first_match [] s = None"
| "first_match ((k, r) # ps) s =
     (case re_match True r s of Some groups \<Rightarrow> Some (k, groups) | None \<Rightarrow> first_match ps s)"


section \<open>The structure classifier: \<open>organize_syllabus_structure\<close>\<close>

datatype node_type = Unit_Header | Topic_Header | Subtopic_Header | Content | General_Content

record text_line =
  l_page :: string                \<comment> \<open>column \<open>Page\<close>\<close>
  l_content :: string             \<comment> \<open>column \<open>Content\<close>\<close>
  l_line_number :: "int option"   \<comment> \<open>column \<open>Line_Number\<close>, \<open>None\<close> when the column is absent\<close>

record node =
  n_page :: string
  n_line_number :: int
  n_unit :: cell
  n_topic :: cell
  n_subtopic :: cell
  n_content :: string
  n_type :: node_type
  n_level :: nat

definition upper_chars :: "char list" where
  \<comment> \<open>the code points below U+0100 for which \<open>str.isupper\<close> holds\<close>
  "upper_chars = upper_letters @
     [CHR 0xC0, CHR 0xC1, CHR 0xC2, CHR 0xC3, CHR 0xC4, CHR 0xC5, CHR 0xC6, CHR 0xC7,
      CHR 0xC8, CHR 0xC9, CHR 0xCA, CHR 0xCB, CHR 0xCC, CHR 0xCD, CHR 0xCE, CHR 0xCF,
      CHR 0xD0, CHR 0xD1, CHR 0xD2, CHR 0xD3, CHR 0xD4, CHR 0xD5, CHR 0xD6,
      CHR 0xD8, CHR 0xD9, CHR 0xDA, CHR 0xDB, CHR 0xDC, CHR 0xDD, CHR 0xDE]"

definition digit_chars :: "char list" where
  \<comment> \<open>the code points below U+0100 for which \<open>str.isdigit\<close> holds\<close>
  "digit_chars = decimal_digits @ [CHR 0xB2, CHR 0xB3, CHR 0xB9]"

definition is_new_sentence :: "string \<Rightarrow> bool" where
  \<comment> \<open>the bullet U+2022 of \<open>content.startswith\<close> lies outside the model's alphabet\<close>
  "is_new_sentence content \<longleftrightarrow>
     content \<noteq> [] \<and>
     (hd content \<in> set upper_chars \<or> hd content \<in> set digit_chars \<or>
      content \<in> set [''PAPER'', ''UNIT'', ''Subject:'', ''Code'', ''The'', ''This'', ''It''] \<or>
      hd content = CHR ''('')"

definition flush :: "string \<Rightarrow> string list \<Rightarrow> text_line list \<Rightarrow> text_line list" where
  \<comment> \<open>join the words collected so far into one line and append it, unless it is blank\<close>
  "flush current_page current_line_words reconstructed_data =
     (if current_line_words \<noteq> [] then
        (let line = join '' '' current_line_words
         in if strip line \<noteq> []
            then reconstructed_data @
                   [\<lparr>l_page = current_page, l_content = line,
                     l_line_number = Some (int (length reconstructed_data) + 1)\<rparr>]
            else reconstructed_data)
      else reconstructed_data)"

fun reconstruct_loop ::
  "text_line list \<Rightarrow> string \<Rightarrow> string list \<Rightarrow> text_line list \<Rightarrow> text_line list" where
  "reconstruct_loop [] current_page current_line_words reconstructed_data =
     flush current_page current_line_words reconstructed_data"
| "reconstruct_loop (row # rows) current_page current_line_words reconstructed_data =
     (let content = strip (l_content row);
          page = l_page row;
          (current_page1, words1, data1) =
            (if page \<noteq> current_page
             then (page, [], flush current_page current_line_words reconstructed_data)
             else (current_page, current_line_words, reconstructed_data));
          (words2, data2) =
            (if is_new_sentence content \<and> words1 \<noteq> []
             then ([], flush current_page1 words1 data1)
             else (words1, data1))
      in reconstruct_loop rows current_page1 (words2 @ [content]) data2)"

definition reconstruct_words_to_sentences :: "text_line list \<Rightarrow> text_line list" where
  \<comment> \<open>the mean content length is compared with 10 exactly, as a ratio of integers\<close>
  "reconstruct_words_to_sentences df =
     (if df = [] then df
      else if sum_list (map (\<lambda>row. length (l_content row)) df) > 10 * length df then df
      else reconstruct_loop df [] [] [])"

definition classify ::
  "string \<times> string \<times> string \<Rightarrow> text_line \<Rightarrow> (string \<times> string \<times> string) \<times> node" where
  \<comment> \<open>one iteration of the loop over the rows; the state is
      \<open>(current_unit, current_topic, current_subtopic)\<close>\<close>
  "classify state row =
     (let (current_unit, current_topic, current_subtopic) = state;
          content = l_content row;
          page = l_page row;
          line_num = (case l_line_number row of None \<Rightarrow> 1 | Some n \<Rightarrow> n)
      in case first_match unit_patterns content of
           Some (kind, groups) \<Rightarrow>
             (let unit = (case kind of
                     SubjectU \<Rightarrow> ''Subject: '' @ strip (groups ! 0)
                   | CodeU \<Rightarrow> ''Code '' @ groups ! 0 @ '': '' @ strip (groups ! 1)
                   | StandardU \<Rightarrow> ''Unit '' @ groups ! 0 @ '': '' @ strip (groups ! 1))
              in ((unit, [], []),
                  \<lparr>n_page = page, n_line_number = line_num, n_unit = StrC unit,
                   n_topic = StrC [], n_subtopic = StrC [], n_content = content,
                   n_type = Unit_Header, n_level = 1\<rparr>))
         | None \<Rightarrow>
        (case first_match topic_patterns content of
           Some (kind, groups) \<Rightarrow>
             (let topic = (case kind of
                     ObjectiveT \<Rightarrow> ''Objective: '' @ strip (groups ! 0)
                   | MarkerT \<Rightarrow> groups ! 0 @ ''. '' @ strip (groups ! 1))
              in ((current_unit, topic, []),
                  \<lparr>n_page = page, n_line_number = line_num, n_unit = StrC current_unit,
                   n_topic = StrC topic, n_subtopic = StrC [], n_content = content,
                   n_type = Topic_Header, n_level = 2\<rparr>))
         | None \<Rightarrow>
        (case first_match subtopic_patterns content of
           Some (kind, groups) \<Rightarrow>
             (let subtopic = groups ! 0 @ ''. '' @ strip (groups ! 1)
              in ((current_unit, current_topic, subtopic),
                  \<lparr>n_page = page, n_line_number = line_num, n_unit = StrC current_unit,
                   n_topic = StrC current_topic, n_subtopic = StrC subtopic, n_content = content,
                   n_type = Subtopic_Header, n_level = 3\<rparr>))
         | None \<Rightarrow>
             if current_unit \<noteq> [] then
               (state,
                \<lparr>n_page = page, n_line_number = line_num, n_unit = StrC current_unit,
                 n_topic = StrC current_topic, n_subtopic = StrC current_subtopic,
                 n_content = content, n_type = Content,
                 n_level = (if current_subtopic \<noteq> [] then 4
                            else if current_topic \<noteq> [] then 3 else 2)\<rparr>)
             else
               (state,
                \<lparr>n_page = page, n_line_number = line_num, n_unit = StrC [],
                 n_topic = StrC [], n_subtopic = StrC [], n_content = content,
                 n_type = General_Content, n_level = 1\<rparr>))))"

fun classify_all :: "string \<times> string \<times> string \<Rightarrow> text_line list \<Rightarrow> node list" where
  "classify_all state [] = []"
| "classify_all state (row # rows) =
     (let (state', n) = classify state row in n # classify_all state' rows)"

text \<open>
  \<open>Series.ffill()\<close> of pandas: a missing value (\<open>None\<close>, \<open>NaN\<close>) is replaced by the last
  value before it that is not missing; every other value, the empty string included, is
  kept.
\<close>

fun ffill_from :: "cell \<Rightarrow> cell list \<Rightarrow> cell list" where
  "ffill_from prev [] = []"
| "ffill_from prev (v # vs) =
     (if v = NoneC then prev # ffill_from prev vs else v # ffill_from v vs)"

definition ffill :: "cell list \<Rightarrow> cell list" where
  "ffill vs = ffill_from NoneC vs"

definition fill_forward :: "node list \<Rightarrow> node list" where
  \<comment> \<open>the three assignments \<open>organized_df[c] = organized_df[c].ffill()\<close>\<close>
  "fill_forward organized_df =
     (let units = ffill (map n_unit organized_df);
          topics = ffill (map n_topic organized_df);
          subtopics = ffill (map n_subtopic organized_df)
      in map (\<lambda>(n, u, t, s). n\<lparr>n_unit := u, n_topic := t, n_subtopic := s\<rparr>)
           (zip organized_df (zip units (zip topics subtopics))))"

definition organize_syllabus_structure :: "text_line list \<Rightarrow> py_error + node list" where
  \<comment> \<open>\<open>Inl KeyError\<close>: \<open>organized_df['Unit']\<close> on the frame of an empty \<open>organized_data\<close>\<close>
  "organize_syllabus_structure df =
     (if df = [] then Inr []
      else
        (let organized_data = classify_all ([], [], []) (reconstruct_words_to_sentences df)
         in if organized_data = [] then Inl KeyError
            else Inr (fill_forward organized_data)))"

definition line :: "string \<Rightarrow> text_line" where
  \<comment> \<open>a row of a frame with the columns \<open>Page\<close> and \<open>Content\<close>\<close>
  "line s = \<lparr>l_page = ''Page 1'', l_content = s, l_line_number = None\<rparr>"

lemma ffill_from_present: "NoneC \<notin> set vs \<Longrightarrow> ffill_from prev vs = vs"
  by (induction vs arbitrary: prev) auto

lemma classify_fields_present:
  "n_unit (snd (classify state row)) \<noteq> NoneC \<and>
   n_topic (snd (classify state row)) \<noteq> NoneC \<and>
   n_subtopic (snd (classify state row)) \<noteq> NoneC"
  by (cases state) (simp add: classify_def Let_def split: option.splits prod.splits)

lemma classify_all_fields_present:
  "n \<in> set (classify_all state rows) \<Longrightarrow>
   n_unit n \<noteq> NoneC \<and> n_topic n \<noteq> NoneC \<and> n_subtopic n \<noteq> NoneC"
proof (induction rows arbitrary: state)
  case Nil
  then show ?case by simp
next
  case (Cons row rows)
  obtain state' m where c: "classify state row = (state', m)" by (cases "classify state row")
  with Cons.prems have "n = m \<or> n \<in> set (classify_all state' rows)" by simp
  then show ?case
  proof
    assume "n = m"
    then show ?thesis using classify_fields_present [of state row] c by simp
  next
    assume "n \<in> set (classify_all state' rows)"
    then show ?thesis by (rule Cons.IH)
  qed
qed

lemma restore_fields:
  "map (\<lambda>(n, u, t, s). n\<lparr>n_unit := u, n_topic := t, n_subtopic := s\<rparr>)
     (zip ns (zip (map n_unit ns) (zip (map n_topic ns) (map n_subtopic ns)))) = ns"
  by (induction ns) simp_all

lemma fill_forward_present:
  assumes "\<forall>n \<in> set ns. n_unit n \<noteq> NoneC \<and> n_topic n \<noteq> NoneC \<and> n_subtopic n \<noteq> NoneC"
  shows "fill_forward ns = ns"
proof -
  have "ffill (map n_unit ns) = map n_unit ns" "ffill (map n_topic ns) = map n_topic ns"
    "ffill (map n_subtopic ns) = map n_subtopic ns"
    unfolding ffill_def using assms by (intro ffill_from_present; force)+
  then show ?thesis by (simp add: fill_forward_def restore_fields)
qed

text \<open>
  The fill pass changes nothing in the classifier's output: every ancestry field it reads
  is a string, and \<open>ffill\<close> replaces missing values only.
\<close>

lemma fill_forward_classified: "fill_forward (classify_all state rows) = classify_all state rows"
  by (rule fill_forward_present) (use classify_all_fields_present in blast)

text \<open>
  C3 (the code at the failing input).  For the lines \<open>1. Introduction\<close>, \<open>a) Overview\<close>,
  \<open>2. Next topic\<close> the third node has a blank Topic before the fill pass and the node
  before it has the Topic \<open>a). Overview\<close>; after the pass the third node's Topic is still
  blank.
\<close>

theorem fill_forward_keeps_blank_topic:
  "map n_topic (classify_all ([], [], [])
      (reconstruct_words_to_sentences
        [line ''1. Introduction'', line ''a) Overview'', line ''2. Next topic''])) =
     [StrC [], StrC ''a). Overview'', StrC []] \<and>
   organize_syllabus_structure
      [line ''1. Introduction'', line ''a) Overview'', line ''2. Next topic''] =
     Inr [\<lparr>n_page = ''Page 1'', n_line_number = 1, n_unit = StrC ''Unit 1: Introduction'',
           n_topic = StrC [], n_subtopic = StrC [], n_content = ''1. Introduction'',
           n_type = Unit_Header, n_level = 1\<rparr>,
          \<lparr>n_page = ''Page 1'', n_line_number = 1, n_unit = StrC ''Unit 1: Introduction'',
           n_topic = StrC ''a). Overview'', n_subtopic = StrC [], n_content = ''a) Overview'',
           n_type = Topic_Header, n_level = 2\<rparr>,
          \<lparr>n_page = ''Page 1'', n_line_number = 1, n_unit = StrC ''Unit 2: Next topic'',
           n_topic = StrC [], n_subtopic = StrC [], n_content = ''2. Next topic'',
           n_type = Unit_Header, n_level = 1\<rparr>]"
  by code_simp

text \<open>
  C6 (as stated).  The topic of the second and third node is not \<open>Overview\<close>: the
  classifier keeps the marker and stores \<open>a). Overview\<close>.
\<close>

theorem classify_example_topic_counterexample:
  "map n_topic
     (case organize_syllabus_structure
         [line ''1. Introduction'', line ''a) Overview'', line ''Some detail text'']
      of Inr nodes \<Rightarrow> nodes | Inl e \<Rightarrow> []) =
     [StrC [], StrC ''a). Overview'', StrC ''a). Overview''] \<and>
   StrC ''a). Overview'' \<noteq> StrC ''Overview''"
  by code_simp

text \<open>
  C6 (amended).  Classifying the lines \<open>1. Introduction\<close>, \<open>a) Overview\<close>,
  \<open>Some detail text\<close> yields exactly three nodes: a \<open>Unit_Header\<close> node with unit
  \<open>Unit 1: Introduction\<close>; a \<open>Topic_Header\<close> node with that unit and the topic
  \<open>a). Overview\<close> (marker, full stop, title); and a \<open>Content\<close> node with that unit and
  that topic.
\<close>

theorem classify_example:
  "organize_syllabus_structure
      [line ''1. Introduction'', line ''a) Overview'', line ''Some detail text''] =
     Inr [\<lparr>n_page = ''Page 1'', n_line_number = 1, n_unit = StrC ''Unit 1: Introduction'',
           n_topic = StrC [], n_subtopic = StrC [], n_content = ''1. Introduction'',
           n_type = Unit_Header, n_level = 1\<rparr>,
          \<lparr>n_page = ''Page 1'', n_line_number = 1, n_unit = StrC ''Unit 1: Introduction'',
           n_topic = StrC ''a). Overview'', n_subtopic = StrC [], n_content = ''a) Overview'',
           n_type = Topic_Header, n_level = 2\<rparr>,
          \<lparr>n_page = ''Page 1'', n_line_number = 1, n_unit = StrC ''Unit 1: Introduction'',
           n_topic = StrC ''a). Overview'', n_subtopic = StrC [], n_content = ''Some detail text'',
           n_type = Content, n_level = 3\<rparr>]"
  by code_simp


section \<open>Data frames\<close>

text \<open>
  A \<open>pandas.DataFrame\<close> is modelled by its number of rows and its columns in order,
  each column a name with one cell per row.
\<close>

record dataframe =
  nrows :: nat                           \<comment> \<open>\<open>len(df)\<close>\<close>
  cols :: "(string \<times> cell list) list"    \<comment> \<open>\<open>df.columns\<close> with the values of each column\<close>

definition has_column :: "dataframe \<Rightarrow> string \<Rightarrow> bool" where
  \<comment> \<open>\<open>name in df.columns\<close>\<close>
  "has_column df name \<longleftrightarrow> name \<in> set (map fst (cols df))"

definition column :: "dataframe \<Rightarrow> string \<Rightarrow> cell list option" where
  \<comment> \<open>\<open>df[name].values\<close>, \<open>None\<close> when there is no such column\<close>
  "column df name = map_of (cols df) name"

definition insert_column :: "nat \<Rightarrow> string \<Rightarrow> cell \<Rightarrow> dataframe \<Rightarrow> dataframe" where
  \<comment> \<open>\<open>df.insert(loc, name, value)\<close> with a scalar value\<close>
  "insert_column loc name v df =
     df\<lparr>cols := take loc (cols df) @ (name, replicate (nrows df) v) # drop loc (cols df)\<rparr>"

definition add_metadata :: "int \<Rightarrow> int \<Rightarrow> dataframe \<Rightarrow> dataframe" where
  \<comment> \<open>the two guarded inserts of \<open>Page\<close> and \<open>Table_Index\<close>\<close>
  "add_metadata page_num table_index df =
     (let df1 = (if has_column df ''Page'' then df
                 else insert_column 0 ''Page'' (IntC page_num) df)
      in if has_column df1 ''Table_Index'' then df1
         else insert_column 1 ''Table_Index'' (IntC table_index) df1)"

definition dict_get :: "pydict \<Rightarrow> string \<Rightarrow> cell \<Rightarrow> cell" where
  \<comment> \<open>\<open>d.get(key, default)\<close>\<close>
  "dict_get d key dflt = (case map_of d key of None \<Rightarrow> dflt | Some v \<Rightarrow> v)"

definition frame_of_dicts :: "pydict list \<Rightarrow> dataframe" where
  \<comment> \<open>\<open>pd.DataFrame(records)\<close> for a list of dicts: the columns are the keys in the order
      of their first occurrence, a key missing in a record gives a missing value\<close>
  "frame_of_dicts records =
     \<lparr>nrows = length records,
      cols = map (\<lambda>key. (key, map (\<lambda>d. dict_get d key NoneC) records))
               (rev (remdups (rev (concat (map (map fst) records)))))\<rparr>"

definition nth_cell :: "cell list \<Rightarrow> nat \<Rightarrow> cell" where
  "nth_cell row k = (if k < length row then row ! k else NoneC)"

definition frame_of_rows :: "string list \<Rightarrow> cell list list \<Rightarrow> py_error + dataframe" where
  \<comment> \<open>\<open>pd.DataFrame(rows, columns=names)\<close> for a list of lists: short rows are padded with
      missing values; \<open>ValueError\<close> unless the longest row has as many cells as there are
      names\<close>
  "frame_of_rows names rows =
     (if rows = [] then Inr \<lparr>nrows = 0, cols = map (\<lambda>name. (name, [])) names\<rparr>
      else if fold max (map length rows) 0 \<noteq> length names then Inl ValueError
      else Inr \<lparr>nrows = length rows,
                cols = map (\<lambda>(k, name). (name, map (\<lambda>row. nth_cell row k) rows))
                         (enumerate 0 names)\<rparr>)"

definition str_cell :: "cell \<Rightarrow> string" where
  \<comment> \<open>\<open>str(v)\<close>, as an f-string formats a value\<close>
  "str_cell v = (case v of NoneC \<Rightarrow> ''None'' | IntC n \<Rightarrow> str_int n | StrC s \<Rightarrow> s)"

fun split_on :: "char \<Rightarrow> string \<Rightarrow> string list" where
  \<comment> \<open>\<open>s.split(sep)\<close> for a separator of one character\<close>
  "split_on sep [] = [[]]"
| "split_on sep (x # xs) =
     (if x = sep then [] # split_on sep xs
      else (case split_on sep xs of w # ws \<Rightarrow> (x # w) # ws | [] \<Rightarrow> [[x]]))"

fun split_two_spaces :: "string \<Rightarrow> string list" where
  \<comment> \<open>\<open>s.split('  ')\<close>: the separator is two blanks, found from left to right\<close>
  "split_two_spaces [] = [[]]"
| "split_two_spaces [x] = [[x]]"
| "split_two_spaces (x # y # r) =
     (if x = CHR '' '' \<and> y = CHR '' '' then [] # split_two_spaces r
      else (case split_two_spaces (y # r) of w # ws \<Rightarrow> (x # w) # ws | [] \<Rightarrow> [[x]]))"

definition lines_of :: "string \<Rightarrow> string list" where
  \<comment> \<open>\<open>[line.strip() for line in text.split('\n') if line.strip()]\<close>\<close>
  "lines_of text = filter (\<lambda>l. l \<noteq> []) (map strip (split_on (CHR 0x0A) text))"

definition truthy :: "string option \<Rightarrow> bool" where
  \<comment> \<open>the truth value of a text that is \<open>None\<close> or a string\<close>
  "truthy text = (case text of None \<Rightarrow> False | Some t \<Rightarrow> t \<noteq> [])"

definition unique :: "'a list \<Rightarrow> 'a list" where
  \<comment> \<open>\<open>series.unique()\<close>: the distinct values in the order of their first appearance\<close>
  "unique vs = rev (remdups (rev vs))"

text \<open>
  Python does not say in which order a \<open>set\<close> is iterated: for a set of strings the order
  changes with the hash seed of the run, for a set of integers it depends on how the set
  was built.  The functions that iterate over a set take that order as a parameter: a
  function from the elements, in the order in which they were put into the set, to the
  order of the iteration.  \<open>permutes\<close> says what every run obeys: each element comes
  exactly once.
\<close>

definition permutes :: "('a list \<Rightarrow> 'a list) \<Rightarrow> bool" where
  "permutes order \<longleftrightarrow> (\<forall>xs. distinct (order xs) \<and> set (order xs) = set xs)"

definition page_values :: "dataframe list \<Rightarrow> cell list" where
  \<comment> \<open>the elements of the set built by \<open>extracted_pages.update(table['Page'].unique())\<close>
      over the tables that have a \<open>Page\<close> column\<close>
  "page_values tables =
     concat (map (\<lambda>t. case column t ''Page'' of None \<Rightarrow> [] | Some vs \<Rightarrow> remdups vs) tables)"

section \<open>Stage A: \<open>PDFExtractor.extract_text_tables\<close>\<close>

definition nonblank_cell :: "string option \<Rightarrow> bool" where
  \<comment> \<open>\<open>cell is not None and str(cell).strip()\<close>\<close>
  "nonblank_cell c = (case c of None \<Rightarrow> False | Some s \<Rightarrow> strip s \<noteq> [])"

definition cell_of :: "string option \<Rightarrow> cell" where
  "cell_of c = (case c of None \<Rightarrow> NoneC | Some s \<Rightarrow> StrC s)"

definition header_of :: "string option \<Rightarrow> raw_header" where
  "header_of c = (case c of None \<Rightarrow> NoneH | Some s \<Rightarrow> StrH s)"

definition table_frame ::
  "int \<Rightarrow> nat \<Rightarrow> string option list list \<Rightarrow> (py_error + dataframe) option" where
  \<comment> \<open>the body of the \<open>try\<close> for one table: \<open>None\<close> when nothing is appended, \<open>Some (Inl e)\<close>
      when the body raises (the table is skipped)\<close>
  "table_frame page_num table_idx table =
     (let filtered_table = filter (\<lambda>row. row \<noteq> [] \<and> list_ex nonblank_cell row) table
      in if filtered_table = [] then None
         else Some
           (case (if length filtered_table = 1
                  then frame_of_rows (map column_name [0..<length (hd filtered_table)])
                         [map cell_of (hd filtered_table)]
                  else frame_of_rows (clean_column_names (map header_of (hd filtered_table)))
                         (map (map cell_of) (tl filtered_table)))
            of Inl e \<Rightarrow> Inl e
             | Inr df \<Rightarrow> Inr (add_metadata page_num (int table_idx + 1) df)))"

definition page_table_frames :: "int \<Rightarrow> string option list list list \<Rightarrow> dataframe list" where
  \<comment> \<open>the loop over \<open>enumerate(page_tables)\<close>: the frames appended for one page\<close>
  "page_table_frames page_num page_tables =
     concat (map (\<lambda>(table_idx, table).
                    case table_frame page_num table_idx table of
                      Some (Inr df) \<Rightarrow> [df]
                    | _ \<Rightarrow> [])
               (enumerate 0 page_tables))"

definition text_frame :: "int \<Rightarrow> string option \<Rightarrow> dataframe list" where
  \<comment> \<open>the frame of the text lines of a page, with \<open>Page\<close> and \<open>Table_Index = 1\<close>; nothing
      when the text is \<open>None\<close> or blank\<close>
  "text_frame page_num text =
     (case text of
        None \<Rightarrow> []
      | Some t \<Rightarrow>
          if t \<noteq> [] \<and> strip t \<noteq> [] then
            (let lines = lines_of t
             in if lines \<noteq> []
                then [add_metadata page_num 1
                        \<lparr>nrows = length lines, cols = [(''Text'', map StrC lines)]\<rparr>]
                else [])
          else [])"

fun text_tables_loop :: "(nat \<times> page) list \<Rightarrow> dataframe list \<Rightarrow> dataframe list \<times> bool" where
  \<comment> \<open>the loop over \<open>enumerate(pdf.pages, start=1)\<close>; the flag tells that
      \<open>page.extract_tables()\<close> raised, which ends the loop in the outer \<open>except\<close>\<close>
  "text_tables_loop [] tables = (tables, False)"
| "text_tables_loop ((page_num, page) # rest) tables =
     (case extract_tables page of
        Inl e \<Rightarrow> (tables, True)
      | Inr page_tables \<Rightarrow>
          (let found = page_table_frames (int page_num) page_tables;
               text_part =
                 (if found = [] then
                    (case extract_text page of
                       Inl e \<Rightarrow> []
                     | Inr text \<Rightarrow> text_frame (int page_num) text)
                  else [])
           in text_tables_loop rest (tables @ found @ text_part)))"

fun text_fallback_loop :: "(nat \<times> page) list \<Rightarrow> dataframe list \<Rightarrow> dataframe list" where
  \<comment> \<open>the fallback of the outer \<open>except\<close>: the text of every page, until a page raises\<close>
  "text_fallback_loop [] tables = tables"
| "text_fallback_loop ((page_num, page) # rest) tables =
     (case extract_text page of
        Inl e \<Rightarrow> tables
      | Inr text \<Rightarrow> text_fallback_loop rest (tables @ text_frame (int page_num) text))"

definition no_content_frame :: "int \<Rightarrow> dataframe" where
  "no_content_frame page_num =
     \<lparr>nrows = 1,
      cols = [(''Page'', [IntC page_num]), (''Table_Index'', [IntC 1]),
              (''Text'', [StrC ''[No extractable content]''])]\<rparr>"

definition extract_text_tables :: "document \<Rightarrow> dataframe list" where
  "extract_text_tables doc =
     (let (tables, total_pages) =
            (case pdf_pages doc of
               Inl e \<Rightarrow> ([], 0)
             | Inr pages \<Rightarrow>
                 (case text_tables_loop (enumerate 1 pages) [] of
                    (tables, False) \<Rightarrow> (tables, length pages)
                  | (tables, True) \<Rightarrow>
                      (text_fallback_loop (enumerate 1 pages) tables, length pages)))
      in if length tables < total_pages
         then tables @
                map no_content_frame
                  (filter (\<lambda>page_num. IntC page_num \<notin> set (page_values tables))
                     [1..int total_pages])
         else tables)"

section \<open>Stage D: \<open>PDFExtractor.extract_from_images\<close>\<close>

definition parse_ocr_text :: "string list \<Rightarrow> string list list option" where
  "parse_ocr_text lines =
     (if lines = [] then None
      else
        (let parsed_data =
               filter (\<lambda>columns. length columns > 1)
                 (map (\<lambda>l. filter (\<lambda>c. c \<noteq> []) (map strip (split_two_spaces l))) lines)
         in if parsed_data = [] then None else Some parsed_data))"

fun images_loop ::
  "(nat \<times> (py_error + string)) list \<Rightarrow> dataframe list \<Rightarrow> dataframe list" where
  \<comment> \<open>the loop over \<open>enumerate(images)\<close>; an exception (OCR, or a frame whose rows do not
      fit the header) ends it with the tables collected so far\<close>
  "images_loop [] tables = tables"
| "images_loop ((i, ocr) # rest) tables =
     (case ocr of
        Inl e \<Rightarrow> tables
      | Inr text \<Rightarrow>
          (let lines = lines_of text
           in if lines = [] then images_loop rest tables
              else
                (case (case parse_ocr_text lines of
                         Some data \<Rightarrow>
                           frame_of_rows (clean_column_names (map StrH (hd data)))
                             (map (map StrC) (tl data))
                       | None \<Rightarrow>
                           Inr \<lparr>nrows = length lines, cols = [(''Text'', map StrC lines)]\<rparr>)
                 of Inl e \<Rightarrow> tables
                  | Inr df \<Rightarrow> images_loop rest (tables @ [add_metadata (int i + 1) 1 df]))))"

definition extract_from_images :: "document \<Rightarrow> dataframe list" where
  "extract_from_images doc =
     (case ocr_pages doc of
        Inl e \<Rightarrow> []
      | Inr rendered \<Rightarrow> images_loop (enumerate 0 rendered) [])"

section \<open>Stage B: \<open>PDFExtractor.extract_all_text_comprehensive\<close>\<close>

definition text_line_frame :: "int \<Rightarrow> string list \<Rightarrow> dataframe" where
  "text_line_frame page_num lines =
     \<lparr>nrows = length lines,
      cols = [(''Page'', replicate (length lines) (IntC page_num)),
              (''Content_Type'', replicate (length lines) (StrC ''Text_Line'')),
              (''Text'', map StrC lines),
              (''Line_Number'', map IntC [1..int (length lines)]),
              (''Extraction_Method'', replicate (length lines) (StrC ''pdfplumber_text''))]\<rparr>"

fun word_data :: "int \<Rightarrow> (nat \<times> pydict) list \<Rightarrow> py_error + pydict list" where
  \<comment> \<open>the records of the words of a page; \<open>KeyError\<close> when a word has no \<open>text\<close>\<close>
  "word_data page_num [] = Inr []"
| "word_data page_num ((i, word) # rest) =
     (case map_of word ''text'' of
        None \<Rightarrow> Inl KeyError
      | Some t \<Rightarrow>
          (case word_data page_num rest of
             Inl e \<Rightarrow> Inl e
           | Inr ds \<Rightarrow>
               Inr ([(''Page'', IntC page_num), (''Content_Type'', StrC ''Word''), (''Text'', t),
                     (''X'', dict_get word ''x0'' (IntC 0)), (''Y'', dict_get word ''top'' (IntC 0)),
                     (''Width'', dict_get word ''width'' (IntC 0)),
                     (''Height'', dict_get word ''height'' (IntC 0)),
                     (''Line_Number'', IntC (int i + 1)),
                     (''Extraction_Method'', StrC ''pdfplumber_words'')] # ds)))"

definition no_text_frame :: "int \<Rightarrow> dataframe" where
  "no_text_frame page_num =
     \<lparr>nrows = 1,
      cols = [(''Page'', [IntC page_num]), (''Content_Type'', [StrC ''No_Text_Content'']),
              (''Text'', [StrC ''[No text content found on this page]'']),
              (''Line_Number'', [IntC 1]), (''Extraction_Method'', [StrC ''pdfplumber_empty''])]\<rparr>"

fun comprehensive_loop :: "(nat \<times> page) list \<Rightarrow> dataframe list \<Rightarrow> dataframe list" where
  \<comment> \<open>the loop over the pages; an exception ends it with the tables collected so far\<close>
  "comprehensive_loop [] tables = tables"
| "comprehensive_loop ((page_num, page) # rest) tables =
     (case extract_text page of
        Inl e \<Rightarrow> tables
      | Inr text \<Rightarrow>
     (case extract_words page of
        Inl e \<Rightarrow> tables
      | Inr words \<Rightarrow>
          (let lines = (case text of None \<Rightarrow> [] | Some t \<Rightarrow>
                          if t \<noteq> [] \<and> strip t \<noteq> [] then lines_of t else []);
               tables1 = tables @
                 (if lines \<noteq> [] then [text_line_frame (int page_num) lines] else [])
           in case word_data (int page_num) (enumerate 0 words) of
                Inl e \<Rightarrow> tables1
              | Inr ds \<Rightarrow>
                  comprehensive_loop rest
                    (tables1 @ (if ds \<noteq> [] then [frame_of_dicts ds] else []) @
                     (if \<not> truthy text \<and> words = []
                      then [no_text_frame (int page_num)] else [])))))"

definition extract_all_text_comprehensive :: "document \<Rightarrow> dataframe list" where
  "extract_all_text_comprehensive doc =
     (case pdf_pages doc of
        Inl e \<Rightarrow> []
      | Inr pages \<Rightarrow> comprehensive_loop (enumerate 1 pages) [])"

section \<open>Stage C: \<open>PDFExtractor.extract_remaining_content\<close>\<close>

definition image_data :: "int \<Rightarrow> pydict list \<Rightarrow> pydict list" where
  "image_data page_num imgs =
     map (\<lambda>(i, img).
            [(''Page'', IntC page_num), (''Content_Type'', StrC ''Image''),
             (''Text'', StrC (''[Image '' @ str_int (int i + 1) @ '': '' @
                             str_cell (dict_get img ''width'' (IntC 0)) @ ''x'' @
                             str_cell (dict_get img ''height'' (IntC 0)) @ '']'')),
             (''X'', dict_get img ''x0'' (IntC 0)), (''Y'', dict_get img ''top'' (IntC 0)),
             (''Width'', dict_get img ''width'' (IntC 0)),
             (''Height'', dict_get img ''height'' (IntC 0)),
             (''Extraction_Method'', StrC ''pdfplumber_images'')])
       (enumerate 0 imgs)"

definition annotation_data :: "int \<Rightarrow> pydict list \<Rightarrow> pydict list" where
  "annotation_data page_num anns =
     map (\<lambda>(i, ann).
            [(''Page'', IntC page_num), (''Content_Type'', StrC ''Annotation''),
             (''Text'', StrC (''[Annotation '' @ str_int (int i + 1) @ '': '' @
                             str_cell (dict_get ann ''subtype'' (StrC ''Unknown'')) @ '']'')),
             (''X'', dict_get ann ''x0'' (IntC 0)), (''Y'', dict_get ann ''top'' (IntC 0)),
             (''Extraction_Method'', StrC ''pdfplumber_annotations'')])
       (enumerate 0 anns)"

definition remaining_of_page :: "int \<Rightarrow> page \<Rightarrow> dataframe list" where
  "remaining_of_page page_num page =
     (if images page \<noteq> [] then [frame_of_dicts (image_data page_num (images page))] else []) @
     (if annots page \<noteq> [] then [frame_of_dicts (annotation_data page_num (annots page))]
      else [])"

definition extract_remaining_content :: "document \<Rightarrow> dataframe list" where
  "extract_remaining_content doc =
     (case pdf_pages doc of
        Inl e \<Rightarrow> []
      | Inr pages \<Rightarrow>
          concat (map (\<lambda>(page_num, page). remaining_of_page (int page_num) page)
                    (enumerate 1 pages)))"

section \<open>Reconciliation: \<open>PDFExtractor.extract_page_content\<close> and the placeholders\<close>

definition py_index :: "'a list \<Rightarrow> int \<Rightarrow> 'a option" where
  \<comment> \<open>\<open>xs[i]\<close>; a negative index counts from the end; \<open>None\<close> is \<open>IndexError\<close>\<close>
  "py_index xs i =
     (let n = int (length xs); j = (if i < 0 then n + i else i)
      in if 0 \<le> j \<and> j < n then Some (xs ! nat j) else None)"

definition extract_page_content :: "document \<Rightarrow> int \<Rightarrow> dataframe option" where
  \<comment> \<open>every exception ends in \<open>return None\<close>\<close>
  "extract_page_content doc page_num =
     (case pdf_pages doc of
        Inl e \<Rightarrow> None
      | Inr pages \<Rightarrow>
          if page_num \<le> int (length pages) then
            (case py_index pages (page_num - 1) of
               None \<Rightarrow> None
             | Some page \<Rightarrow>
            (case extract_text page of
               Inl e \<Rightarrow> None
             | Inr text \<Rightarrow>
            (case extract_words page of
               Inl e \<Rightarrow> None
             | Inr words \<Rightarrow>
                 if truthy text \<or> words \<noteq> [] \<or> images page \<noteq> [] then
                   (let content_data =
                          (case text of
                             None \<Rightarrow> []
                           | Some t \<Rightarrow>
                               if t \<noteq> [] then
                                 [[(''Page'', IntC page_num),
                                   (''Content_Type'', StrC ''Remaining_Text''),
                                   (''Text'', StrC (if length t > 500 then take 500 t @ ''...''
                                                    else t)),
                                   (''Extraction_Method'', StrC ''page_specific_text'')]]
                               else []) @
                          (if words \<noteq> [] then
                             [[(''Page'', IntC page_num),
                               (''Content_Type'', StrC ''Remaining_Words''),
                               (''Text'', StrC (''[Found '' @ str_nat (length words) @ '' words]'')),
                               (''Extraction_Method'', StrC ''page_specific_words'')]]
                           else []) @
                          (if images page \<noteq> [] then
                             [[(''Page'', IntC page_num),
                               (''Content_Type'', StrC ''Remaining_Images''),
                               (''Text'', StrC (''[Found '' @ str_nat (length (images page)) @
                                               '' images]'')),
                               (''Extraction_Method'', StrC ''page_specific_images'')]]
                           else [])
                    in if content_data \<noteq> [] then Some (frame_of_dicts content_data) else None)
                 else None)))
          else None)"

definition empty_page_frame :: "int \<Rightarrow> dataframe" where
  "empty_page_frame page_num =
     \<lparr>nrows = 1,
      cols = [(''Page'', [IntC page_num]), (''Content_Type'', [StrC ''Empty_Page'']),
              (''Text'', [StrC (''[Page '' @ str_int page_num @
                               '' - No extractable content found]'')]),
              (''Extraction_Status'', [StrC ''No_Content''])]\<rparr>"

fun reconcile :: "document \<Rightarrow> int list \<Rightarrow> dataframe list \<Rightarrow> py_error + dataframe list" where
  \<comment> \<open>the loop over the missing pages.  \<open>if page_content:\<close> on a frame raises \<open>ValueError\<close>
      (the truth value of a DataFrame is ambiguous); on \<open>None\<close> the placeholder is appended\<close>
  "reconcile doc [] all_tables = Inr all_tables"
| "reconcile doc (page_num # rest) all_tables =
     (case extract_page_content doc page_num of
        Some page_content \<Rightarrow> Inl ValueError
      | None \<Rightarrow> reconcile doc rest (all_tables @ [empty_page_frame page_num]))"

section \<open>The consolidator: \<open>PDFExtractor.consolidate_tables\<close>\<close>

definition tables_of_page :: "dataframe list \<Rightarrow> int \<Rightarrow> dataframe list" where
  \<comment> \<open>\<open>[t for t in all_tables if 'Page' in t.columns and page_num in t['Page'].values]\<close>\<close>
  "tables_of_page all_tables page_num =
     filter (\<lambda>t. case column t ''Page'' of None \<Rightarrow> False | Some vs \<Rightarrow> IntC page_num \<in> set vs)
       all_tables"

definition content_types_of :: "dataframe list \<Rightarrow> cell list" where
  \<comment> \<open>the list \<open>content_types\<close> after the loop: the distinct values of the
      \<open>Content_Type\<close> column of each table, one table after the other\<close>
  "content_types_of page_tables =
     concat (map (\<lambda>t. case column t ''Content_Type'' of None \<Rightarrow> []
                        | Some vs \<Rightarrow> unique vs) page_tables)"

fun join_cells :: "string \<Rightarrow> cell list \<Rightarrow> py_error + string" where
  \<comment> \<open>\<open>sep.join(items)\<close>: \<open>TypeError\<close> when an item is not a string\<close>
  "join_cells sep [] = Inr []"
| "join_cells sep (StrC s # rest) =
     (case join_cells sep rest of
        Inl e \<Rightarrow> Inl e
      | Inr r \<Rightarrow> Inr (if rest = [] then s else s @ sep @ r))"
| "join_cells sep (v # rest) = Inl TypeError"

definition total_items :: "dataframe list \<Rightarrow> nat" where
  \<comment> \<open>\<open>sum(len(t) for t in page_tables)\<close>\<close>
  "total_items page_tables = sum_list (map nrows page_tables)"

definition summary_record ::
  "(cell list \<Rightarrow> cell list) \<Rightarrow> dataframe list \<Rightarrow> int \<Rightarrow> py_error + pydict" where
  \<comment> \<open>\<open>order\<close>: the order in which \<open>set(content_types)\<close> is iterated by \<open>join\<close>\<close>
  "summary_record order all_tables page_num =
     (let page_tables = tables_of_page all_tables page_num
      in if page_tables \<noteq> [] then
           (case join_cells '', '' (order (content_types_of page_tables)) of
              Inl e \<Rightarrow> Inl e
            | Inr types \<Rightarrow>
                Inr [(''Page'', IntC page_num), (''Content_Type'', StrC ''Page_Summary''),
                     (''Text'', StrC (''Page '' @ str_int page_num @ '': '' @
                                     str_nat (total_items page_tables) @
                                     '' total items, Content types: '' @ types)),
                     (''Total_Items'', IntC (int (total_items page_tables))),
                     (''Content_Types'', StrC types),
                     (''Extraction_Method'', StrC ''consolidated_summary'')])
         else
           Inr [(''Page'', IntC page_num), (''Content_Type'', StrC ''Page_Summary''),
                (''Text'', StrC (''Page '' @ str_int page_num @ '': No content extracted'')),
                (''Total_Items'', IntC 0), (''Content_Types'', StrC ''None''),
                (''Extraction_Method'', StrC ''consolidated_summary'')])"

fun summary_data ::
  "(cell list \<Rightarrow> cell list) \<Rightarrow> dataframe list \<Rightarrow> int list \<Rightarrow> py_error + pydict list" where
  "summary_data order all_tables [] = Inr []"
| "summary_data order all_tables (page_num # rest) =
     (case summary_record order all_tables page_num of
        Inl e \<Rightarrow> Inl e
      | Inr d \<Rightarrow>
          (case summary_data order all_tables rest of
             Inl e \<Rightarrow> Inl e
           | Inr ds \<Rightarrow> Inr (d # ds)))"

definition consolidate_tables ::
  "(cell list \<Rightarrow> cell list) \<Rightarrow> dataframe list \<Rightarrow> nat \<Rightarrow> py_error + dataframe list" where
  "consolidate_tables order all_tables total_pages =
     (if all_tables = [] then Inr []
      else
        (case summary_data order all_tables [1..int total_pages] of
           Inl e \<Rightarrow> Inl e
         | Inr ds \<Rightarrow> Inr (frame_of_dicts ds # all_tables)))"

section \<open>The entry point: \<open>PDFExtractor.extract\<close>\<close>

record extraction_result =
  r_extraction_method :: string
  r_is_text_based :: bool
  r_tables :: "dataframe list"
  r_total_tables :: nat
  r_total_rows :: nat
  r_total_pages :: nat
  r_extracted_pages :: nat
  r_missing_pages :: nat
  r_completeness_score :: real

definition page_count :: "document \<Rightarrow> nat" where
  \<comment> \<open>\<open>total_pages\<close>: \<open>len(pdf.pages)\<close>, or 0 when the document cannot be opened\<close>
  "page_count doc = (case pdf_pages doc of Inl e \<Rightarrow> 0 | Inr pages \<Rightarrow> length pages)"

definition gather :: "document \<Rightarrow> dataframe list" where
  \<comment> \<open>steps 1 to 3: \<open>all_tables\<close> before the coverage check\<close>
  "gather doc =
     (if is_text_based doc then extract_text_tables doc else extract_from_images doc) @
     extract_all_text_comprehensive doc @
     extract_remaining_content doc"

definition missing_pages :: "nat \<Rightarrow> dataframe list \<Rightarrow> int list" where
  \<comment> \<open>the elements of \<open>set(range(1, total_pages + 1)) - extracted_pages\<close>, listed in
      ascending order\<close>
  "missing_pages total_pages all_tables =
     filter (\<lambda>page_num. IntC page_num \<notin> set (page_values all_tables)) [1..int total_pages]"

definition score :: "nat \<Rightarrow> nat \<Rightarrow> real" where
  \<comment> \<open>\<open>(len(final_extracted_pages) / total_pages * 100) if total_pages > 0 else 100\<close>,
      computed exactly\<close>
  "score covered total_pages =
     (if total_pages > 0 then real covered / real total_pages * 100 else 100)"

definition extract_pdf ::
  "(cell list \<Rightarrow> cell list) \<Rightarrow> (int list \<Rightarrow> int list) \<Rightarrow> document \<Rightarrow>
   py_error + extraction_result" where
  \<comment> \<open>\<open>PDFExtractor.extract\<close> (\<open>extract\<close> is a keyword of Isabelle).  \<open>types_order\<close>: the
      order in which the consolidator iterates over the set of content types;
      \<open>pages_order\<close>: the order in which \<open>for page_num in missing_pages\<close> iterates over
      the set of missing pages\<close>
  "extract_pdf types_order pages_order doc =
     (if \<not> path_exists doc then Inl FileNotFoundError
      else
        (let total_pages = page_count doc;
             is_text = is_text_based doc;
             all_tables = gather doc
         in case reconcile doc (pages_order (missing_pages total_pages all_tables)) all_tables of
              Inl e \<Rightarrow> Inl e
            | Inr all_tables \<Rightarrow>
           (case consolidate_tables types_order all_tables total_pages of
              Inl e \<Rightarrow> Inl e
            | Inr consolidated_tables \<Rightarrow>
                (let final_extracted_pages = remdups (page_values consolidated_tables)
                 in Inr \<lparr>r_extraction_method = (if is_text then ''pdfplumber'' else ''ocr''),
                         r_is_text_based = is_text,
                         r_tables = consolidated_tables,
                         r_total_tables = length consolidated_tables,
                         r_total_rows = sum_list (map nrows consolidated_tables),
                         r_total_pages = total_pages,
                         r_extracted_pages = length final_extracted_pages,
                         r_missing_pages = 0,
                         r_completeness_score =
                           score (length final_extracted_pages) total_pages\<rparr>))))"

section \<open>Example documents\<close>

definition words_of :: "string list \<Rightarrow> pydict list" where
  \<comment> \<open>word records as \<open>page.extract_words()\<close> returns them\<close>
  "words_of ws = map (\<lambda>w. [(''text'', StrC w), (''x0'', IntC 72), (''top'', IntC 90)]) ws"

definition blank_page :: page where
  \<comment> \<open>a page that yields no tables, no text, no words and no images\<close>
  "blank_page =
     \<lparr>extract_tables = Inr [], extract_text = Inr None, extract_words = Inr [],
      images = [], annots = []\<rparr>"

definition report_page :: page where
  \<comment> \<open>a page with one line of text and no table\<close>
  "report_page =
     \<lparr>extract_tables = Inr [],
      extract_text = Inr (Some ''Annual report of the committee on water supply, 2020''),
      extract_words = Inr (words_of [''Annual'', ''report'']),
      images = [], annots = []\<rparr>"

definition index_page :: page where
  \<comment> \<open>a page with a table whose header row has a column named \<open>Page\<close>\<close>
  "index_page =
     \<lparr>extract_tables = Inr [[[Some ''Page'', Some ''Title''], [Some ''7'', Some ''Introduction'']]],
      extract_text = Inr (Some ''Page Title 7 Introduction and a few more words to pass the threshold''),
      extract_words = Inr (words_of [''Page'', ''Title'']),
      images = [], annots = []\<rparr>"

definition three_page_doc :: document where
  "three_page_doc =
     \<lparr>path_exists = True, pdf_pages = Inr [report_page, blank_page, report_page],
      ocr_pages = Inr [Inr [], Inr [], Inr []]\<rparr>"

definition index_doc :: document where
  "index_doc = \<lparr>path_exists = True, pdf_pages = Inr [index_page], ocr_pages = Inr [Inr []]\<rparr>"

definition first_seen :: "'a list \<Rightarrow> 'a list" where
  \<comment> \<open>one order in which a set may be iterated: each element where it was first put in\<close>
  "first_seen xs = unique xs"

lemma unique_set [simp]: "set (unique xs) = set xs"
  by (simp add: unique_def)

lemma unique_distinct [simp]: "distinct (unique xs)"
  by (simp add: unique_def)

lemma permutes_first_seen: "permutes first_seen"
  by (simp add: permutes_def first_seen_def)

lemma permutes_set: "permutes order \<Longrightarrow> set (order xs) = set xs"
  by (simp add: permutes_def)

lemma permutes_distinct: "permutes order \<Longrightarrow> distinct (order xs)"
  by (simp add: permutes_def)

lemma permutes_Nil: "permutes order \<Longrightarrow> order xs = [] \<longleftrightarrow> xs = []"
  by (metis permutes_set set_empty)

section \<open>Properties of the consolidator\<close>

lemma map_of_keyed: "map_of (map (\<lambda>k. (k, f k)) ks) k = (if k \<in> set ks then Some (f k) else None)"
  by (induction ks) auto

lemma column_frame_of_dicts:
  "column (frame_of_dicts ds) k =
     (if k \<in> set (concat (map (map fst) ds)) then Some (map (\<lambda>d. dict_get d k NoneC) ds)
      else None)"
  by (simp add: column_def frame_of_dicts_def map_of_keyed)

definition is_str :: "cell \<Rightarrow> bool" where
  "is_str v = (case v of StrC s \<Rightarrow> True | _ \<Rightarrow> False)"

lemma is_str_simps [simp]: "is_str (StrC s)" "\<not> is_str (IntC n)" "\<not> is_str NoneC"
  by (simp_all add: is_str_def)

definition string_content_types :: "dataframe list \<Rightarrow> bool" where
  \<comment> \<open>every cell of every \<open>Content_Type\<close> column is a string\<close>
  "string_content_types all_tables =
     list_all (\<lambda>t. case column t ''Content_Type'' of None \<Rightarrow> True | Some vs \<Rightarrow> list_all is_str vs)
       all_tables"

text \<open>
  What the summary of a page is about, said without the program's own helpers: the
  tables whose \<open>Page\<close> column holds the page number, and the cells of the \<open>Content_Type\<close>
  column of a table.
\<close>

abbreviation holds_page :: "int \<Rightarrow> dataframe \<Rightarrow> bool" where
  "holds_page p t \<equiv> (\<exists>vs. column t ''Page'' = Some vs \<and> IntC p \<in> set vs)"

abbreviation type_cells :: "dataframe \<Rightarrow> cell list" where
  "type_cells t \<equiv> (case column t ''Content_Type'' of None \<Rightarrow> [] | Some vs \<Rightarrow> vs)"

lemma tables_of_page_holds: "tables_of_page all_tables p = filter (holds_page p) all_tables"
  unfolding tables_of_page_def by (rule filter_cong) (auto split: option.splits)

lemma content_types_of_set:
  "set (content_types_of page_tables) = (\<Union>t \<in> set page_tables. set (type_cells t))"
  by (auto simp: content_types_of_def split: option.splits)

lemma str_cell_simps [simp]:
  "str_cell (StrC s) = s" "str_cell (IntC n) = str_int n" "str_cell NoneC = ''None''"
  by (simp_all add: str_cell_def)

lemma join_cells_strings:
  "list_all is_str cs \<Longrightarrow> join_cells sep cs = Inr (join sep (map str_cell cs))"
proof (induction cs)
  case Nil
  then show ?case by simp
next
  case (Cons c cs)
  then obtain s where c: "c = StrC s" by (cases c) auto
  from Cons have ih: "join_cells sep cs = Inr (join sep (map str_cell cs))" by simp
  show ?case
  proof (cases cs)
    case Nil
    then show ?thesis using c by simp
  next
    case (Cons d ds)
    then show ?thesis using c ih by simp
  qed
qed

lemma join_cells_not_string:
  "\<not> list_all is_str cs \<Longrightarrow> join_cells sep cs = Inl TypeError"
proof (induction cs)
  case Nil
  then show ?case by simp
next
  case (Cons c cs)
  show ?case
  proof (cases c)
    case (StrC s)
    with Cons.prems have "\<not> list_all is_str cs" by simp
    from Cons.IH [OF this] StrC show ?thesis by simp
  qed simp_all
qed

lemma content_types_strings:
  assumes "string_content_types all_tables" and "set page_tables \<subseteq> set all_tables"
  shows "list_all is_str (content_types_of page_tables)"
proof -
  have "is_str v" if "v \<in> set (content_types_of page_tables)" for v
  proof -
    from that obtain t where t: "t \<in> set page_tables" and v: "v \<in> set (type_cells t)"
      unfolding content_types_of_set by blast
    from v obtain vs where vs: "column t ''Content_Type'' = Some vs" "v \<in> set vs"
      by (cases "column t ''Content_Type''") auto
    from t assms(2) have "t \<in> set all_tables" by blast
    with assms(1) vs(1) have "list_all is_str vs"
      by (auto simp: string_content_types_def list_all_iff)
    with vs(2) show ?thesis unfolding list_all_iff by blast
  qed
  then show ?thesis by (simp add: list_all_iff)
qed

definition summary_keys :: "string list" where
  "summary_keys = [''Page'', ''Content_Type'', ''Text'', ''Total_Items'', ''Content_Types'',
                   ''Extraction_Method'']"

lemma summary_record_page:
  assumes "summary_record order all_tables p = Inr d"
  shows "map fst d = summary_keys \<and> dict_get d ''Page'' NoneC = IntC p"
  using assms
  by (auto simp: summary_record_def Let_def summary_keys_def dict_get_def
      split: if_splits sum.splits)

lemma summary_record_fields:
  assumes "permutes order" and "string_content_types all_tables"
  shows "\<exists>d types.
           summary_record order all_tables p = Inr d \<and>
           dict_get d ''Content_Type'' NoneC = StrC ''Page_Summary'' \<and>
           dict_get d ''Total_Items'' NoneC =
             IntC (int (sum_list (map nrows (filter (holds_page p) all_tables)))) \<and>
           dict_get d ''Content_Types'' NoneC = StrC types \<and>
           (filter (holds_page p) all_tables = [] \<longrightarrow> types = ''None'') \<and>
           (filter (holds_page p) all_tables \<noteq> [] \<longrightarrow>
              (\<exists>cs. distinct cs \<and>
                 set cs = (\<Union>t \<in> set (filter (holds_page p) all_tables). set (type_cells t)) \<and>
                 types = join '', '' (map str_cell cs)))"
proof (cases "filter (holds_page p) all_tables = []")
  case True
  then show ?thesis
    by (simp add: summary_record_def tables_of_page_holds dict_get_def)
next
  case False
  let ?ts = "filter (holds_page p) all_tables"
  let ?cs = "order (content_types_of ?ts)"
  have "list_all is_str (content_types_of ?ts)"
    using assms(2) by (rule content_types_strings) simp
  then have "list_all is_str ?cs"
    using permutes_set [OF assms(1)] by (simp add: list_all_iff)
  then have j: "join_cells '', '' ?cs = Inr (join '', '' (map str_cell ?cs))"
    by (rule join_cells_strings)
  have c: "distinct ?cs \<and> set ?cs = (\<Union>t \<in> set ?ts. set (type_cells t))"
    using permutes_set [OF assms(1)] permutes_distinct [OF assms(1)]
    by (simp add: content_types_of_set)
  let ?d = "[(''Page'', IntC p), (''Content_Type'', StrC ''Page_Summary''),
             (''Text'', StrC (''Page '' @ str_int p @ '': '' @
                             str_nat (total_items ?ts) @
                             '' total items, Content types: '' @ join '', '' (map str_cell ?cs))),
             (''Total_Items'', IntC (int (total_items ?ts))),
             (''Content_Types'', StrC (join '', '' (map str_cell ?cs))),
             (''Extraction_Method'', StrC ''consolidated_summary'')]"
  have r: "summary_record order all_tables p = Inr ?d"
    using False j by (simp add: summary_record_def tables_of_page_holds Let_def)
  have "dict_get ?d ''Content_Type'' NoneC = StrC ''Page_Summary''"
    "dict_get ?d ''Total_Items'' NoneC = IntC (int (sum_list (map nrows ?ts)))"
    "dict_get ?d ''Content_Types'' NoneC = StrC (join '', '' (map str_cell ?cs))"
    by (simp_all add: dict_get_def total_items_def)
  with r c False show ?thesis by blast
qed

lemma summary_data_pages:
  "summary_data order all_tables ps = Inr ds \<Longrightarrow>
     (\<forall>d \<in> set ds. map fst d = summary_keys) \<and>
     map (\<lambda>d. dict_get d ''Page'' NoneC) ds = map IntC ps"
proof (induction ps arbitrary: ds)
  case Nil
  then show ?case by simp
next
  case (Cons p ps)
  from Cons.prems obtain d ds' where d: "summary_record order all_tables p = Inr d"
    and ds': "summary_data order all_tables ps = Inr ds'" and ds: "ds = d # ds'"
    by (auto split: sum.splits)
  from summary_record_page [OF d] Cons.IH [OF ds'] show ?case unfolding ds by simp
qed

lemma summary_data_map:
  "(\<And>p. p \<in> set ps \<Longrightarrow> \<exists>d. summary_record order all_tables p = Inr d) \<Longrightarrow>
   summary_data order all_tables ps = Inr (map (\<lambda>p. projr (summary_record order all_tables p)) ps)"
proof (induction ps)
  case Nil
  show ?case by simp
next
  case (Cons p ps)
  from Cons.prems [of p] obtain d where d: "summary_record order all_tables p = Inr d" by auto
  have "summary_data order all_tables ps =
        Inr (map (\<lambda>p. projr (summary_record order all_tables p)) ps)"
    using Cons.prems by (intro Cons.IH) auto
  with d show ?case by simp
qed

lemma column_summary_frame:
  assumes "ds \<noteq> []" and "\<forall>d \<in> set ds. map fst d = summary_keys" and "k \<in> set summary_keys"
  shows "column (frame_of_dicts ds) k = Some (map (\<lambda>d. dict_get d k NoneC) ds)"
proof -
  obtain d rest where "ds = d # rest" using assms(1) by (cases ds) auto
  with assms(2,3) have "k \<in> set (concat (map (map fst) ds))" by simp
  then show ?thesis by (simp add: column_frame_of_dicts)
qed

lemma upto_length: "length [1..int n] = n"
  by simp

lemma distinct_singleton: "distinct cs \<Longrightarrow> set cs = {x} \<Longrightarrow> cs = [x]"
proof (cases cs)
  case Nil
  assume "set cs = {x}"
  with Nil show ?thesis by simp
next
  case (Cons c rest)
  assume d: "distinct cs" and s: "set cs = {x}"
  from s Cons have c: "c = x" by auto
  from d Cons have "c \<notin> set rest" by simp
  moreover from s Cons c have "set rest \<subseteq> {x}" by auto
  ultimately have "rest = []" using c by (cases rest) auto
  with Cons c show ?thesis by simp
qed

text \<open>
  C9 (as stated).  Three things fail.
  \<^item> The tables after the summary are not in page order: the consolidator appends them in
    the order of its input.  For the tables gathered from a document of three pages (the
    tables of the table stage for pages 1 and 3 and its placeholder for page 2, then the
    tables of the text stage for pages 1, 2 and 3) that order is 1, 3, 2, 1, 1, 2, 3, 3.
  \<^item> A table that was extracted with a column \<open>Content_Type\<close> of its own and a missing
    value in it makes \<open>join\<close> raise \<open>TypeError\<close>: there is no result.
  \<^item> The item count of a page is the number of rows of the tables whose \<open>Page\<close> column
    holds the page number.  The table of \<open>index_doc\<close> has a \<open>Page\<close> column of its own, so
    its row is not counted: 3 items for the 4 rows that were extracted from page 1.

  None of the three depends on the order in which the set of content types is iterated.
\<close>

theorem consolidate_tables_order_counterexample:
  "map (\<lambda>t. column t ''Page'')
     (case consolidate_tables first_seen (gather three_page_doc) 3 of
        Inr ts \<Rightarrow> tl ts | Inl e \<Rightarrow> []) =
     [Some [IntC 1], Some [IntC 3], Some [IntC 2], Some [IntC 1], Some [IntC 1, IntC 1],
      Some [IntC 2], Some [IntC 3], Some [IntC 3, IntC 3]] \<and>
   consolidate_tables first_seen
     (page_table_frames 1 [[[Some ''Content_Type'', Some ''Title''],
                            [None, Some ''Introduction'']]]) 1 = Inl TypeError \<and>
   sum_list (map nrows (gather index_doc)) = 4 \<and>
   (case consolidate_tables first_seen (gather index_doc) 1 of
      Inr ts \<Rightarrow> column (hd ts) ''Total_Items'' | Inl e \<Rightarrow> None) = Some [IntC 3]"
  by code_simp

text \<open>
  C9 (amended).  For every non-empty list of tables whose \<open>Content_Type\<close> cells are all
  strings and every \<open>total_pages \<ge> 1\<close>, in whatever order the set of content types is
  iterated, \<open>consolidate_tables\<close> returns a summary table followed by all the original
  tables in the order of the input.  The summary has exactly one \<open>Page_Summary\<close> row per
  page number 1, ..., \<open>total_pages\<close>, in that order.  The row of a page carries the number
  of rows of the tables whose \<open>Page\<close> column holds the page number, and the content types
  of those tables, each once, joined by a comma and a blank (\<open>None\<close> when there is no such
  table).
\<close>

theorem consolidate_tables_summary_first:
  assumes "permutes order" and "all_tables \<noteq> []" and "1 \<le> total_pages"
    and "string_content_types all_tables"
  shows "\<exists>summary types.
           consolidate_tables order all_tables total_pages = Inr (summary # all_tables) \<and>
           nrows summary = total_pages \<and>
           column summary ''Page'' = Some (map IntC [1..int total_pages]) \<and>
           column summary ''Content_Type'' =
             Some (map (\<lambda>p. StrC ''Page_Summary'') [1..int total_pages]) \<and>
           column summary ''Total_Items'' =
             Some (map (\<lambda>p. IntC (int (sum_list (map nrows (filter (holds_page p) all_tables)))))
                     [1..int total_pages]) \<and>
           column summary ''Content_Types'' =
             Some (map (\<lambda>p. StrC (types p)) [1..int total_pages]) \<and>
           (\<forall>p. filter (holds_page p) all_tables = [] \<longrightarrow> types p = ''None'') \<and>
           (\<forall>p. filter (holds_page p) all_tables \<noteq> [] \<longrightarrow>
              (\<exists>cs. distinct cs \<and>
                 set cs = (\<Union>t \<in> set (filter (holds_page p) all_tables). set (type_cells t)) \<and>
                 types p = join '', '' (map str_cell cs)))"
proof -
  let ?ps = "[1..int total_pages]"
  let ?rec = "\<lambda>p. projr (summary_record order all_tables p)"
  let ?types = "\<lambda>p. str_cell (dict_get (?rec p) ''Content_Types'' NoneC)"
  let ?ds = "map ?rec ?ps"
  note f = summary_record_fields [OF assms(1,4)]
  have rec: "\<exists>d. summary_record order all_tables p = Inr d" for p
    using f [of p] by blast
  have ds: "summary_data order all_tables ?ps = Inr ?ds"
    by (rule summary_data_map) (rule rec)
  note pg = summary_data_pages [OF ds]
  have ne: "?ds \<noteq> []" using assms(3) by (simp add: upto.simps)
  have c: "consolidate_tables order all_tables total_pages = Inr (frame_of_dicts ?ds # all_tables)"
    using assms(2) ds by (simp add: consolidate_tables_def)
  have n: "nrows (frame_of_dicts ?ds) = total_pages" by (simp add: frame_of_dicts_def)
  have cols: "column (frame_of_dicts ?ds) k = Some (map (\<lambda>p. dict_get (?rec p) k NoneC) ?ps)"
    if "k \<in> set summary_keys" for k
    using column_summary_frame [OF ne _ that] pg by (simp add: comp_def)
  have p1: "column (frame_of_dicts ?ds) ''Page'' = Some (map IntC ?ps)"
    using cols [of "''Page''"] pg by (simp add: summary_keys_def comp_def)
  have fields: "dict_get (?rec p) ''Content_Type'' NoneC = StrC ''Page_Summary'' \<and>
      dict_get (?rec p) ''Total_Items'' NoneC =
        IntC (int (sum_list (map nrows (filter (holds_page p) all_tables)))) \<and>
      dict_get (?rec p) ''Content_Types'' NoneC = StrC (?types p) \<and>
      (filter (holds_page p) all_tables = [] \<longrightarrow> ?types p = ''None'') \<and>
      (filter (holds_page p) all_tables \<noteq> [] \<longrightarrow>
         (\<exists>cs. distinct cs \<and>
            set cs = (\<Union>t \<in> set (filter (holds_page p) all_tables). set (type_cells t)) \<and>
            ?types p = join '', '' (map str_cell cs)))" for p
  proof -
    from f [of p] obtain d types where
      d: "summary_record order all_tables p = Inr d"
        "dict_get d ''Content_Type'' NoneC = StrC ''Page_Summary''"
        "dict_get d ''Total_Items'' NoneC =
           IntC (int (sum_list (map nrows (filter (holds_page p) all_tables))))"
        "dict_get d ''Content_Types'' NoneC = StrC types"
        "filter (holds_page p) all_tables = [] \<longrightarrow> types = ''None''"
        "filter (holds_page p) all_tables \<noteq> [] \<longrightarrow>
           (\<exists>cs. distinct cs \<and>
              set cs = (\<Union>t \<in> set (filter (holds_page p) all_tables). set (type_cells t)) \<and>
              types = join '', '' (map str_cell cs))"
      by (elim exE conjE)
    from d(1) have r: "?rec p = d" by simp
    show ?thesis unfolding r using d(2-6) by simp
  qed
  have p2: "column (frame_of_dicts ?ds) ''Content_Type'' =
      Some (map (\<lambda>p. StrC ''Page_Summary'') ?ps)"
    using cols [of "''Content_Type''"] fields by (simp add: summary_keys_def)
  have p3: "column (frame_of_dicts ?ds) ''Total_Items'' =
      Some (map (\<lambda>p. IntC (int (sum_list (map nrows (filter (holds_page p) all_tables))))) ?ps)"
    using cols [of "''Total_Items''"] fields by (simp add: summary_keys_def)
  have p4: "column (frame_of_dicts ?ds) ''Content_Types'' = Some (map (\<lambda>p. StrC (?types p)) ?ps)"
    using cols [of "''Content_Types''"] fields by (simp add: summary_keys_def)
  have p5: "\<forall>p. filter (holds_page p) all_tables = [] \<longrightarrow> ?types p = ''None''"
    using fields by blast
  have p6: "\<forall>p. filter (holds_page p) all_tables \<noteq> [] \<longrightarrow>
      (\<exists>cs. distinct cs \<and>
         set cs = (\<Union>t \<in> set (filter (holds_page p) all_tables). set (type_cells t)) \<and>
         ?types p = join '', '' (map str_cell cs))"
    using fields by blast
  show ?thesis
    by (intro exI [of _ "frame_of_dicts ?ds"] exI [of _ ?types] conjI c n p1 p2 p3 p4 p5 p6)
qed

definition spanning_table :: dataframe where
  \<comment> \<open>a table of two rows, the first of page 1 and the second of page 2\<close>
  "spanning_table =
     \<lparr>nrows = 2,
      cols = [(''Page'', [IntC 1, IntC 2]),
              (''Content_Type'', [StrC ''Text_Line'', StrC ''Text_Line'']),
              (''Text'', [StrC ''end of the first page'', StrC ''top of the second page''])]\<rparr>"

text \<open>
  Two tables and three pages.  Page 1 is held by both tables, which have the same content
  type; page 2 is held by the second row of the spanning table only; no table holds
  page 3.
\<close>

theorem consolidate_tables_summary_first_witness:
  "permutes (first_seen :: cell list \<Rightarrow> cell list) \<and>
   [text_line_frame 1 [''first''], spanning_table] \<noteq> [] \<and> (1::nat) \<le> 3 \<and>
   string_content_types [text_line_frame 1 [''first''], spanning_table] \<and>
   (\<exists>summary.
      consolidate_tables first_seen [text_line_frame 1 [''first''], spanning_table] 3 =
        Inr [summary, text_line_frame 1 [''first''], spanning_table] \<and>
      nrows summary = 3 \<and>
      column summary ''Page'' = Some [IntC 1, IntC 2, IntC 3] \<and>
      column summary ''Total_Items'' = Some [IntC 3, IntC 2, IntC 0] \<and>
      column summary ''Content_Types'' =
        Some [StrC ''Text_Line'', StrC ''Text_Line'', StrC ''None''])"
proof -
  let ?T = "[text_line_frame 1 [''first''], spanning_table]"
  have s: "string_content_types ?T" by code_simp
  have ne: "?T \<noteq> []" by simp
  have le: "(1::nat) \<le> 3" by simp
  have u: "[1..int 3] = [1, 2, 3]" by code_simp
  have pg: "column (text_line_frame 1 [''first'']) ''Page'' = Some [IntC 1]"
    "column spanning_table ''Page'' = Some [IntC 1, IntC 2]"
    by (simp_all add: text_line_frame_def spanning_table_def column_def)
  have ct: "type_cells (text_line_frame 1 [''first'']) = [StrC ''Text_Line'']"
    "type_cells spanning_table = [StrC ''Text_Line'', StrC ''Text_Line'']"
    by (simp_all add: text_line_frame_def spanning_table_def column_def)
  have nr: "nrows (text_line_frame 1 [''first'']) = 1" "nrows spanning_table = 2"
    by (simp_all add: text_line_frame_def spanning_table_def)
  have h1: "filter (holds_page 1) ?T = ?T" by (simp add: pg)
  have h2: "filter (holds_page 2) ?T = [spanning_table]" by (simp add: pg)
  have h3: "filter (holds_page 3) ?T = []" by (simp add: pg)
  from consolidate_tables_summary_first [OF permutes_first_seen ne le s]
  obtain summary types where
    c: "consolidate_tables first_seen ?T 3 = Inr (summary # ?T)" and
    n: "nrows summary = 3" and
    p: "column summary ''Page'' = Some (map IntC [1..int 3])" and
    t: "column summary ''Total_Items'' =
          Some (map (\<lambda>p. IntC (int (sum_list (map nrows (filter (holds_page p) ?T))))) [1..int 3])"
    and y: "column summary ''Content_Types'' = Some (map (\<lambda>p. StrC (types p)) [1..int 3])" and
    e: "\<forall>p. filter (holds_page p) ?T = [] \<longrightarrow> types p = ''None''" and
    f: "\<forall>p. filter (holds_page p) ?T \<noteq> [] \<longrightarrow>
          (\<exists>cs. distinct cs \<and> set cs = (\<Union>t \<in> set (filter (holds_page p) ?T). set (type_cells t)) \<and>
             types p = join '', '' (map str_cell cs))"
    by (elim exE conjE) (rule that, assumption+)
  have t1: "types 1 = ''Text_Line''"
  proof -
    have "filter (holds_page 1) ?T \<noteq> []" unfolding h1 by simp
    from f [rule_format, OF this] obtain cs where cs: "distinct cs"
      "set cs = (\<Union>t \<in> set (filter (holds_page 1) ?T). set (type_cells t))"
      "types 1 = join '', '' (map str_cell cs)"
      by (elim exE conjE) (rule that, assumption+)
    from cs(2) have "set cs = set (type_cells (text_line_frame 1 [''first''])) \<union>
        set (type_cells spanning_table)"
      unfolding h1 by (simp only: list.set UN_insert UN_empty Un_empty_right)
    then have "set cs = {StrC ''Text_Line''}" unfolding ct by simp
    from distinct_singleton [OF cs(1) this] cs(3) show ?thesis by simp
  qed
  have t2: "types 2 = ''Text_Line''"
  proof -
    have "filter (holds_page 2) ?T \<noteq> []" unfolding h2 by simp
    from f [rule_format, OF this] obtain cs where cs: "distinct cs"
      "set cs = (\<Union>t \<in> set (filter (holds_page 2) ?T). set (type_cells t))"
      "types 2 = join '', '' (map str_cell cs)"
      by (elim exE conjE) (rule that, assumption+)
    from cs(2) have "set cs = set (type_cells spanning_table)"
      unfolding h2 by (simp only: list.set UN_insert UN_empty Un_empty_right)
    then have "set cs = {StrC ''Text_Line''}" unfolding ct by simp
    from distinct_singleton [OF cs(1) this] cs(3) show ?thesis by simp
  qed
  have t3: "types 3 = ''None''" using e [rule_format, OF h3] .
  have a: "column summary ''Total_Items'' = Some [IntC 3, IntC 2, IntC 0]"
    unfolding t u by (simp only: list.map h1 h2 h3 nr sum_list.Cons sum_list.Nil) simp
  have b: "column summary ''Content_Types'' =
      Some [StrC ''Text_Line'', StrC ''Text_Line'', StrC ''None'']"
    unfolding y u by (simp only: list.map t1 t2 t3)
  have d: "column summary ''Page'' = Some [IntC 1, IntC 2, IntC 3]"
    unfolding p u by simp
  show ?thesis
  proof (intro conjI)
    show "permutes (first_seen :: cell list \<Rightarrow> cell list)" by (rule permutes_first_seen)
    show "?T \<noteq> []" by (rule ne)
    show "(1::nat) \<le> 3" by (rule le)
    show "string_content_types ?T" by (rule s)
    show "\<exists>summary.
      consolidate_tables first_seen ?T 3 = Inr [summary, text_line_frame 1 [''first''], spanning_table] \<and>
      nrows summary = 3 \<and>
      column summary ''Page'' = Some [IntC 1, IntC 2, IntC 3] \<and>
      column summary ''Total_Items'' = Some [IntC 3, IntC 2, IntC 0] \<and>
      column summary ''Content_Types'' =
        Some [StrC ''Text_Line'', StrC ''Text_Line'', StrC ''None'']"
    proof (intro exI [of _ summary] conjI)
      show "consolidate_tables first_seen ?T 3 =
          Inr [summary, text_line_frame 1 [''first''], spanning_table]"
        by (rule c)
      show "nrows summary = 3" by (rule n)
      show "column summary ''Page'' = Some [IntC 1, IntC 2, IntC 3]" by (rule d)
      show "column summary ''Total_Items'' = Some [IntC 3, IntC 2, IntC 0]" by (rule a)
      show "column summary ''Content_Types'' =
          Some [StrC ''Text_Line'', StrC ''Text_Line'', StrC ''None'']"
        by (rule b)
    qed
  qed
qed

end
